theory Spec2Isabelle
  imports Main "HOL-Library.Word"
begin

section \<open>The termbox port: a shallow embedding of \<^verbatim>\<open>c_src/termbox_port.c\<close>\<close>

text \<open>
  The port is a single C file.  Its globals (the shadow buffer, its two dimensions), the
  calls it makes to the termbox library, the lines it writes to the client socket and
  what it prints on the standard error stream are collected in one record that every
  function takes and returns.  What the operating system and the termbox library answer
  (whether a write succeeds, what \<^verbatim>\<open>malloc\<close> returns, the next terminal event, the
  bytes a \<^verbatim>\<open>read\<close> delivers) is not decided by the port: it is an argument of the model.
  A C function that may not return normally has an \<open>option\<close> result, \<open>None\<close> standing
  for a run that never returns or leaves defined behaviour.
\<close>

subsection \<open>Constants and machine types\<close>

type_synonym u8 = "8 word"
type_synonym u16 = "16 word"
type_synonym u32 = "32 word"

definition MAX_ARGS :: nat where
  "MAX_ARGS = 10"

definition SOCKET_BUFFER_SIZE :: nat where
  "SOCKET_BUFFER_SIZE = 4096"

definition MAX_EVENT_STR_SIZE :: nat where
  "MAX_EVENT_STR_SIZE = 256"

subsection \<open>The C library: strings, number parsing, number formatting\<close>

text \<open>
  A C string is the bytes before the first NUL.  \<open>c_str\<close> reads a byte sequence the way
  \<^verbatim>\<open>strlen\<close>, \<^verbatim>\<open>strcpy\<close> and the \<^verbatim>\<open>%s\<close> conversion do.
\<close>

definition c_str :: "string \<Rightarrow> string" where
  "c_str s = takeWhile (\<lambda>c. c \<noteq> CHR 0x00) s"

text \<open>\<^verbatim>\<open>isspace\<close> and \<^verbatim>\<open>isdigit\<close> in the C locale.\<close>

definition isspace_c :: "char \<Rightarrow> bool" where
  "isspace_c c = ((of_char c :: nat) = 32 \<or> (9 \<le> (of_char c :: nat) \<and> (of_char c :: nat) \<le> 13))"

definition isdigit_c :: "char \<Rightarrow> bool" where
  "isdigit_c c = (48 \<le> (of_char c :: nat) \<and> (of_char c :: nat) \<le> 57)"

definition digit_val :: "char \<Rightarrow> nat" where
  "digit_val c = (of_char c :: nat) - 48"

definition digits_value :: "string \<Rightarrow> nat" where
  "digits_value ds = foldl (\<lambda>a c. 10 * a + digit_val c) 0 ds"

text \<open>
  The common front end of \<^verbatim>\<open>strtol\<close> and \<^verbatim>\<open>strtoul\<close> in base 10: leading white space
  is skipped, one sign is accepted, the longest run of digits is read (no digit reads as
  0).  The result is the sign and the magnitude before any clamping.
\<close>

definition scan_number :: "string \<Rightarrow> bool \<times> nat" where
  "scan_number s =
     (let s1 = dropWhile isspace_c s;
          signed = (s1 \<noteq> [] \<and> (hd s1 = CHR ''-'' \<or> hd s1 = CHR ''+''));
          s2 = (if signed then tl s1 else s1)
      in (s1 \<noteq> [] \<and> hd s1 = CHR ''-'', digits_value (takeWhile isdigit_c s2)))"

text \<open>\<^verbatim>\<open>strtol\<close> on a 64-bit \<^verbatim>\<open>long\<close>: out of range values are clamped.\<close>

definition strtol :: "string \<Rightarrow> int" where
  "strtol s =
     (case scan_number s of
        (neg, m) \<Rightarrow> if neg then max (- (2 ^ 63)) (- int m) else min (2 ^ 63 - 1) (int m))"

text \<open>
  \<^verbatim>\<open>atoi\<close> is \<^verbatim>\<open>(int) strtol(s, NULL, 10)\<close>: the \<^verbatim>\<open>long\<close> is cut to its low 32 bits,
  read as two's complement.  An unparsable token is 0.
\<close>

definition atoi :: "string \<Rightarrow> int" where
  "atoi s = sint (word_of_int (strtol s) :: 32 word)"

text \<open>
  \<^verbatim>\<open>strtoul\<close> on a 64-bit \<^verbatim>\<open>unsigned long\<close>: an overflow gives \<^verbatim>\<open>ULONG_MAX\<close>, a minus
  sign negates modulo \<open>2 ^ 64\<close>.
\<close>

definition strtoul :: "string \<Rightarrow> nat" where
  "strtoul s =
     (case scan_number s of
        (neg, m) \<Rightarrow>
          if m > 2 ^ 64 - 1 then 2 ^ 64 - 1
          else if neg then (2 ^ 64 - m) mod 2 ^ 64
          else m)"

text \<open>The \<^verbatim>\<open>%u\<close> and \<^verbatim>\<open>%d\<close> conversions of \<^verbatim>\<open>snprintf\<close>.\<close>

fun show_nat :: "nat \<Rightarrow> string" where
  "show_nat n =
     (if n < 10 then [char_of (48 + n)]
      else show_nat (n div 10) @ [char_of (48 + n mod 10)])"

definition show_int :: "int \<Rightarrow> string" where
  "show_int i = (if i < 0 then CHR ''-'' # show_nat (nat (- i)) else show_nat (nat i))"

text \<open>
  One call of \<^verbatim>\<open>strtok\<close> with the delimiter set \<^verbatim>\<open>" "\<close>: leading spaces are skipped; the
  token runs to the next space, which is overwritten by NUL; the scan resumes after it.
\<close>

definition strtok_sp :: "string \<Rightarrow> (string \<times> string) option" where
  "strtok_sp s =
     (let s1 = dropWhile (\<lambda>c. c = CHR '' '') s in
      if s1 = [] then None
      else Some (takeWhile (\<lambda>c. c \<noteq> CHR '' '') s1,
                 drop 1 (dropWhile (\<lambda>c. c \<noteq> CHR '' '') s1)))"

text \<open>
  The tokenising loop of \<^verbatim>\<open>handle_client_command\<close>:
  \<^verbatim>\<open>while (token != NULL && argc < MAX_ARGS) { args[argc++] = token; token = strtok(NULL, " "); }\<close>
  The first argument is the number of free slots of \<^verbatim>\<open>args\<close>.
\<close>

fun collect_args :: "nat \<Rightarrow> string \<Rightarrow> string list" where
  "collect_args 0 s = []"
| "collect_args (Suc n) s =
     (case strtok_sp s of
        None \<Rightarrow> []
      | Some (t, rest) \<Rightarrow> t # collect_args n rest)"

subsection \<open>Data\<close>

text \<open>
  \<^verbatim>\<open>struct tb_cell\<close> and \<^verbatim>\<open>struct tb_event\<close> are declared in \<^verbatim>\<open>termbox.h\<close>, which is
  not part of the port's sources.  The fields and their widths are the ones the port's
  casts and format strings use.
\<close>

record tb_cell =
  ch :: u32
  fg :: u16
  bg :: u16

record tb_event =
  ev_type :: u8
  ev_mod :: u8
  ev_key :: u16
  ev_ch :: u32
  ev_w :: int
  ev_h :: int
  ev_x :: int
  ev_y :: int

text \<open>
  What the port takes from \<^verbatim>\<open>termbox.h\<close> and the termbox library without defining it:
  two constants and the two UTF-8 helpers.  They are parameters of the model.
  \<^item> \<open>tb_utf8_char_to_unicode tb s\<close> is the return value of the C function on the string
    \<open>s\<close> and the value of \<^verbatim>\<open>codepoint\<close> after the call;
  \<^item> \<open>tb_utf8_unicode_to_char tb c\<close> is the return value and the bytes found in
    \<^verbatim>\<open>utf8_buffer\<close> after the call.
\<close>

record termbox =
  TB_DEFAULT :: u16
  TB_EVENT_RESIZE :: u8
  tb_utf8_char_to_unicode :: "string \<Rightarrow> int \<times> u32"
  tb_utf8_unicode_to_char :: "u32 \<Rightarrow> int \<times> string"

text \<open>The calls into the termbox library that act on the terminal, as a trace.\<close>

datatype tb_call =
    Tb_present
  | Tb_clear
  | Tb_change_cell int int u32 u16 u16
  | Tb_width
  | Tb_height
  | Tb_set_cursor int int
  | Tb_select_input_mode int
  | Tb_select_output_mode int
  | Tb_set_clear_attributes u16 u16
  | Tb_peek_event int
  | Tb_shutdown

text \<open>
  What reaches the standard error stream: \<^verbatim>\<open>perror\<close> with its message (the text of
  \<^verbatim>\<open>errno\<close> that follows it is left out), or a line printed by \<^verbatim>\<open>fprintf\<close> (without
  its final newline).
\<close>

datatype log_entry =
    Perror string
  | Fprintf string

text \<open>The system calls that create, bind, accept and close sockets, as a trace.\<close>

datatype sys_call =
    Sys_socket
  | Sys_unlink string
  | Sys_bind string
  | Sys_listen
  | Sys_accept
  | Sys_fcntl_getfl
  | Sys_fcntl_setfl
  | Sys_close_listen
  | Sys_close_client

text \<open>
  The state of the process: the three shadow buffer globals (\<open>None\<close> is the \<^verbatim>\<open>NULL\<close>
  pointer), the termbox calls made so far, the lines handed to \<^verbatim>\<open>write_socket_line\<close> so
  far, each with whether the write succeeded, the lines printed on the standard output
  and on the standard error stream, and the socket system calls made so far.
\<close>

record session =
  shadow_buffer :: "tb_cell list option"
  shadow_buffer_width :: int
  shadow_buffer_height :: int
  tb_calls :: "tb_call list"
  sock_writes :: "(string \<times> bool) list"
  stdout_out :: "string list"
  stderr_out :: "log_entry list"
  sys_calls :: "sys_call list"

text \<open>
  What the environment answers during one call of \<^verbatim>\<open>handle_client_command\<close>: the outcome
  of its (single) socket write and the return values of the termbox queries.
\<close>

record cmd_env =
  write_ok :: bool
  width_ret :: int
  height_ret :: int
  input_mode_ret :: "int \<Rightarrow> int"
  output_mode_ret :: "int \<Rightarrow> int"

subsection \<open>Writing to the client socket\<close>

text \<open>
  \<^verbatim>\<open>write_socket_line\<close> sends the line and a newline with \<^verbatim>\<open>write_exact\<close>, which
  repeats \<^verbatim>\<open>write\<close> until every byte is out or a write fails.  The model keeps the
  outcome: the line was sent in full (the result is its length plus one) or the write
  failed (the result is \<open>-1\<close>).  An empty line is not written at all.
\<close>

definition write_socket_line :: "bool \<Rightarrow> session \<Rightarrow> string \<Rightarrow> int \<times> session" where
  "write_socket_line ok st line =
     (if c_str line = [] then (0, st)
      else (if ok then int (length (c_str line)) + 1 else - 1,
            st\<lparr>sock_writes := sock_writes st @ [(c_str line, ok)]\<rparr>))"

text \<open>
  The two ways \<^verbatim>\<open>handle_client_command\<close> answers.  A success response is checked:
  \<^verbatim>\<open>if (write_socket_line(client_fd, r) < 0) { perror(msg); return 1; }\<close>, and the
  function goes on to its final \<^verbatim>\<open>return 0\<close> otherwise.  An error response is written
  with the result ignored.
\<close>

definition reply_checked :: "cmd_env \<Rightarrow> session \<Rightarrow> string \<Rightarrow> string \<Rightarrow> int \<times> session" where
  "reply_checked env st r msg =
     (case write_socket_line (write_ok env) st r of
        (n, st') \<Rightarrow>
          if n < 0 then (1, st'\<lparr>stderr_out := stderr_out st' @ [Perror msg]\<rparr>)
          else (0, st'))"

definition reply_unchecked :: "cmd_env \<Rightarrow> session \<Rightarrow> string \<Rightarrow> int \<times> session" where
  "reply_unchecked env st r = (0, snd (write_socket_line (write_ok env) st r))"

subsection \<open>The shadow buffer\<close>

text \<open>
  \<^verbatim>\<open>sizeof(struct tb_cell)\<close>: a 32-bit code point and two 16-bit attributes.
\<close>

definition sizeof_tb_cell :: nat where
  "sizeof_tb_cell = 8"

definition default_cell :: "termbox \<Rightarrow> tb_cell" where
  "default_cell tb = \<lparr>ch = 32, fg = TB_DEFAULT tb, bg = TB_DEFAULT tb\<rparr>"

text \<open>
  The initialising loops of \<^verbatim>\<open>update_shadow_buffer_size\<close> and of the \<^verbatim>\<open>clear\<close> command:
  \<^verbatim>\<open>for (y = 0; y < height; ++y) for (x = 0; x < width; ++x) buffer[y * width + x] = d;\<close>
\<close>

definition fill_cells :: "tb_cell \<Rightarrow> nat \<Rightarrow> nat \<Rightarrow> tb_cell list \<Rightarrow> tb_cell list" where
  "fill_cells d width height buf =
     fold (\<lambda>y b. fold (\<lambda>x b'. b'[y * width + x := d]) [0..<width] b) [0..<height] buf"

text \<open>
  \<^verbatim>\<open>update_shadow_buffer_size\<close>.  The argument \<open>malloc\<close> is what the allocator answers
  to a request of so many bytes: \<open>None\<close> is \<^verbatim>\<open>NULL\<close>, \<open>Some fresh\<close> is a block whose
  cell \<open>i\<close> holds \<open>fresh i\<close> before it is initialised.  The byte count is computed in
  \<^verbatim>\<open>size_t\<close>, modulo \<open>2 ^ 64\<close>; when it wraps around and the allocator still answers
  with a block, the initialising loops write past that block, and the model has no
  result.  When the allocator answers \<^verbatim>\<open>NULL\<close>, one line (formatted in a buffer of 100
  bytes) goes to the standard error stream and the function returns.
\<close>

definition alloc_failure_log :: "nat \<Rightarrow> log_entry" where
  "alloc_failure_log buffer_size =
     Fprintf (''termbox_port C_LOG ERROR: '' @
              take 99 (''Error: Failed to allocate shadow buffer ('' @
                       show_nat buffer_size @ '' bytes).''))"

definition update_shadow_buffer_size ::
  "termbox \<Rightarrow> (nat \<Rightarrow> (nat \<Rightarrow> tb_cell) option) \<Rightarrow> session \<Rightarrow> int \<Rightarrow> int \<Rightarrow> session option" where
  "update_shadow_buffer_size tb malloc st width height =
     (let st1 = st\<lparr>shadow_buffer := None,
                   shadow_buffer_width := width,
                   shadow_buffer_height := height\<rparr>
      in
      if width \<le> 0 \<or> height \<le> 0
      then Some (st1\<lparr>shadow_buffer_width := 0, shadow_buffer_height := 0\<rparr>)
      else
        let buffer_size = (nat width * nat height * sizeof_tb_cell) mod 2 ^ 64 in
        (case malloc buffer_size of
           None \<Rightarrow>
             Some (st1\<lparr>shadow_buffer_width := 0,
                       shadow_buffer_height := 0,
                       stderr_out := stderr_out st1 @ [alloc_failure_log buffer_size]\<rparr>)
         | Some fresh \<Rightarrow>
             if buffer_size < nat width * nat height * sizeof_tb_cell then None
             else Some (st1\<lparr>shadow_buffer :=
                    Some (fill_cells (default_cell tb) (nat width) (nat height)
                            (map fresh [0..<nat width * nat height]))\<rparr>)))"

text \<open>
  The mirror write that follows \<^verbatim>\<open>tb_change_cell\<close> in the \<^verbatim>\<open>print\<close> and \<^verbatim>\<open>change_cell\<close>
  commands:
  \<^verbatim>\<open>if (shadow_buffer && x >= 0 && x < shadow_buffer_width && y >= 0 && y < shadow_buffer_height)
      shadow_buffer[(size_t)y * shadow_buffer_width + x] = cell;\<close>
\<close>

definition shadow_buffer_store :: "session \<Rightarrow> int \<Rightarrow> int \<Rightarrow> tb_cell \<Rightarrow> session" where
  "shadow_buffer_store st x y c =
     (case shadow_buffer st of
        None \<Rightarrow> st
      | Some cells \<Rightarrow>
          if x \<ge> 0 \<and> x < shadow_buffer_width st \<and> y \<ge> 0 \<and> y < shadow_buffer_height st
          then st\<lparr>shadow_buffer := Some (cells[nat (y * shadow_buffer_width st + x) := c])\<rparr>
          else st)"

text \<open>A call of \<^verbatim>\<open>tb_change_cell\<close>, recorded.\<close>

definition tb_change_cell :: "session \<Rightarrow> int \<Rightarrow> int \<Rightarrow> u32 \<Rightarrow> u16 \<Rightarrow> u16 \<Rightarrow> session" where
  "tb_change_cell st x y c f b = st\<lparr>tb_calls := tb_calls st @ [Tb_change_cell x y c f b]\<rparr>"

subsection \<open>Events\<close>

text \<open>
  The event line of \<^verbatim>\<open>send_event_to_client\<close>, formatted by \<^verbatim>\<open>snprintf\<close> into a buffer
  of \<^verbatim>\<open>MAX_EVENT_STR_SIZE\<close> bytes.  A failed write is reported by \<^verbatim>\<open>perror\<close> and
  nothing else: the function returns \<^verbatim>\<open>void\<close>.
\<close>

definition format_event :: "tb_event \<Rightarrow> string" where
  "format_event ev =
     take (MAX_EVENT_STR_SIZE - 1)
       (''EVENT {\"type\":'' @ show_nat (unat (ev_type ev)) @
        '', \"mod\":'' @ show_nat (unat (ev_mod ev)) @
        '', \"key\":'' @ show_nat (unat (ev_key ev)) @
        '', \"ch\":'' @ show_nat (unat (ev_ch ev)) @
        '', \"w\":'' @ show_int (ev_w ev) @
        '', \"h\":'' @ show_int (ev_h ev) @
        '', \"x\":'' @ show_int (ev_x ev) @
        '', \"y\":'' @ show_int (ev_y ev) @ ''}'')"

definition send_event_to_client :: "bool \<Rightarrow> session \<Rightarrow> tb_event \<Rightarrow> session" where
  "send_event_to_client ok st ev =
     (case write_socket_line ok st (format_event ev) of
        (n, st') \<Rightarrow>
          if n < 0
          then st'\<lparr>stderr_out := stderr_out st' @ [Perror ''Error writing event to client socket'']\<rparr>
          else st')"

subsection \<open>The command dispatcher\<close>

text \<open>
  The start of \<^verbatim>\<open>handle_client_command\<close>: a trailing newline, then a trailing carriage
  return, is cut off the line.
\<close>

definition strip_eol :: "string \<Rightarrow> string" where
  "strip_eol l =
     (let l1 = (if l \<noteq> [] \<and> last l = CHR 0x0A then butlast l else l)
      in if l1 \<noteq> [] \<and> last l1 = CHR 0x0D then butlast l1 else l1)"

text \<open>
  The text of a \<^verbatim>\<open>print\<close> command is put together again from \<^verbatim>\<open>args[5]\<close> onwards in
  \<^verbatim>\<open>text_buffer\<close>, one space between two tokens.  The first argument is the text so far,
  the second says whether the token is \<^verbatim>\<open>args[5]\<close>.  \<open>None\<close> is the branch that
  answers \<^verbatim>\<open>ERROR text_too_long_print\<close>.
\<close>

fun join_text :: "string \<Rightarrow> bool \<Rightarrow> string list \<Rightarrow> string option" where
  "join_text acc first [] = Some acc"
| "join_text acc first (a # as) =
     (if length acc + length a + (if first then 0 else 1) \<ge> SOCKET_BUFFER_SIZE then None
      else join_text (acc @ (if first then [] else '' '') @ a) False as)"

text \<open>
  The painting loop of \<^verbatim>\<open>print\<close>:
  \<^verbatim>\<open>while (*text_ptr != '\0') {
      text_ptr += tb_utf8_char_to_unicode(&codepoint, text_ptr);
      if (codepoint == 0) break;
      tb_change_cell(current_x, y, codepoint, fg, bg);
      /* mirror write */
      current_x++;
  }\<close>
  When the decoder reports that it consumed no byte (or a negative number of bytes) and
  the code point is not 0, the C loop does not advance: it has no result.  The column
  \<^verbatim>\<open>current_x\<close> is a C \<^verbatim>\<open>int\<close>: incrementing it at \<^verbatim>\<open>INT_MAX\<close> is undefined, and the
  loop has no result there either.
\<close>

function print_loop ::
  "termbox \<Rightarrow> session \<Rightarrow> string \<Rightarrow> int \<Rightarrow> int \<Rightarrow> u16 \<Rightarrow> u16 \<Rightarrow> session option" where
  "print_loop tb st text_ptr current_x y f b =
     (if text_ptr = [] then Some st
      else
        (case tb_utf8_char_to_unicode tb text_ptr of
           (n, codepoint) \<Rightarrow>
             if codepoint = 0 then Some st
             else if n \<le> 0 then None
             else if current_x \<ge> 2147483647 then None
             else print_loop tb
                    (shadow_buffer_store (tb_change_cell st current_x y codepoint f b)
                       current_x y \<lparr>ch = codepoint, fg = f, bg = b\<rparr>)
                    (drop (nat n) text_ptr) (current_x + 1) y f b))"
  by pat_completeness auto
termination
  by (relation "measure (\<lambda>(tb, st, text_ptr, current_x, y, f, b). length text_ptr)") auto

definition present_branch :: "cmd_env \<Rightarrow> session \<Rightarrow> string list \<Rightarrow> int \<times> session" where
  "present_branch env st args =
     (if length args = 1
      then reply_checked env (st\<lparr>tb_calls := tb_calls st @ [Tb_present]\<rparr>) ''OK''
             ''Error writing OK response for present''
      else reply_unchecked env st ''ERROR invalid_args_present'')"

definition clear_branch :: "termbox \<Rightarrow> cmd_env \<Rightarrow> session \<Rightarrow> string list \<Rightarrow> int \<times> session" where
  "clear_branch tb env st args =
     (if length args = 1
      then
        let st1 = st\<lparr>tb_calls := tb_calls st @ [Tb_clear]\<rparr>;
            st2 = (case shadow_buffer st1 of
                     None \<Rightarrow> st1
                   | Some cells \<Rightarrow>
                       if shadow_buffer_width st1 > 0 \<and> shadow_buffer_height st1 > 0
                       then st1\<lparr>shadow_buffer :=
                              Some (fill_cells (default_cell tb) (nat (shadow_buffer_width st1))
                                      (nat (shadow_buffer_height st1)) cells)\<rparr>
                       else st1)
        in reply_checked env st2 ''OK'' ''Error writing OK response for clear''
      else reply_unchecked env st ''ERROR invalid_args_clear'')"

definition print_branch ::
  "termbox \<Rightarrow> cmd_env \<Rightarrow> session \<Rightarrow> string list \<Rightarrow> (int \<times> session) option" where
  "print_branch tb env st args =
     (if length args \<ge> 6
      then
        let x = atoi (args ! 1);
            y = atoi (args ! 2);
            f = (word_of_int (atoi (args ! 3)) :: u16);
            b = (word_of_int (atoi (args ! 4)) :: u16)
        in
        (case join_text [] True (drop 5 args) of
           None \<Rightarrow> Some (reply_unchecked env st ''ERROR text_too_long_print'')
         | Some text_buffer \<Rightarrow>
             (case print_loop tb st text_buffer x y f b of
                None \<Rightarrow> None
              | Some st' \<Rightarrow>
                  Some (reply_checked env st' ''OK'' ''Error writing OK response for print'')))
      else Some (reply_unchecked env st ''ERROR invalid_args_print''))"

definition change_cell_branch :: "cmd_env \<Rightarrow> session \<Rightarrow> string list \<Rightarrow> int \<times> session" where
  "change_cell_branch env st args =
     (if length args = 6
      then
        let x = atoi (args ! 1);
            y = atoi (args ! 2);
            codepoint = (word_of_nat (strtoul (args ! 3)) :: u32);
            f = (word_of_int (atoi (args ! 4)) :: u16);
            b = (word_of_int (atoi (args ! 5)) :: u16)
        in reply_checked env
             (shadow_buffer_store (tb_change_cell st x y codepoint f b) x y
                \<lparr>ch = codepoint, fg = f, bg = b\<rparr>)
             ''OK'' ''Error writing OK response for change_cell''
      else reply_unchecked env st ''ERROR invalid_args_change_cell'')"

text \<open>
  The text of a cell in the answer of \<^verbatim>\<open>get_cell\<close>: the encoder's output in the 8-byte
  \<^verbatim>\<open>utf8_buffer\<close>, replaced by \<^verbatim>\<open>"?"\<close> when the encoder returns 0 or less; the last byte
  of the buffer is then set to NUL and the buffer is printed with \<^verbatim>\<open>%s\<close>.
\<close>

definition cell_text :: "termbox \<Rightarrow> u32 \<Rightarrow> string" where
  "cell_text tb c =
     (case tb_utf8_unicode_to_char tb c of
        (bytes_written, utf8_buffer) \<Rightarrow>
          c_str (take 7 (if bytes_written \<le> 0 then ''?'' else utf8_buffer)))"

definition get_cell_branch :: "termbox \<Rightarrow> cmd_env \<Rightarrow> session \<Rightarrow> string list \<Rightarrow> int \<times> session" where
  "get_cell_branch tb env st args =
     (if length args = 3
      then
        let x = atoi (args ! 1);
            y = atoi (args ! 2)
        in
        (case shadow_buffer st of
           None \<Rightarrow> reply_unchecked env st ''ERROR invalid_coords_get_cell''
         | Some cells \<Rightarrow>
             if x < 0 \<or> x \<ge> shadow_buffer_width st \<or> y < 0 \<or> y \<ge> shadow_buffer_height st
             then reply_unchecked env st ''ERROR invalid_coords_get_cell''
             else
               let cell_data = cells ! nat (y * shadow_buffer_width st + x) in
               reply_checked env st
                 (take 255
                    (''OK_CELL '' @ show_int x @ '' '' @ show_int y @ '' '' @
                     cell_text tb (ch cell_data) @ '' '' @
                     show_nat (unat (fg cell_data)) @ '' '' @ show_nat (unat (bg cell_data))))
                 ''Error writing OK_CELL response for get_cell'')
      else reply_unchecked env st ''ERROR invalid_args_get_cell'')"

definition width_branch :: "cmd_env \<Rightarrow> session \<Rightarrow> string list \<Rightarrow> int \<times> session" where
  "width_branch env st args =
     (if length args = 1
      then reply_checked env (st\<lparr>tb_calls := tb_calls st @ [Tb_width]\<rparr>)
             (take 31 (''OK_WIDTH '' @ show_int (width_ret env)))
             ''Error writing OK_WIDTH response''
      else reply_unchecked env st ''ERROR invalid_args_width'')"

definition height_branch :: "cmd_env \<Rightarrow> session \<Rightarrow> string list \<Rightarrow> int \<times> session" where
  "height_branch env st args =
     (if length args = 1
      then reply_checked env (st\<lparr>tb_calls := tb_calls st @ [Tb_height]\<rparr>)
             (take 31 (''OK_HEIGHT '' @ show_int (height_ret env)))
             ''Error writing OK_HEIGHT response''
      else reply_unchecked env st ''ERROR invalid_args_height'')"

definition set_cursor_branch :: "cmd_env \<Rightarrow> session \<Rightarrow> string list \<Rightarrow> int \<times> session" where
  "set_cursor_branch env st args =
     (if length args = 3
      then reply_checked env
             (st\<lparr>tb_calls := tb_calls st @ [Tb_set_cursor (atoi (args ! 1)) (atoi (args ! 2))]\<rparr>)
             ''OK'' ''Error writing OK response for set_cursor''
      else reply_unchecked env st ''ERROR invalid_args_set_cursor'')"

definition set_input_mode_branch :: "cmd_env \<Rightarrow> session \<Rightarrow> string list \<Rightarrow> int \<times> session" where
  "set_input_mode_branch env st args =
     (if length args = 2
      then
        let mode = atoi (args ! 1);
            st1 = st\<lparr>tb_calls := tb_calls st @ [Tb_select_input_mode mode]\<rparr>
        in
        if input_mode_ret env mode < 0
        then reply_unchecked env st1 ''ERROR tb_select_input_mode_failed''
        else reply_checked env st1 ''OK'' ''Error writing OK response for set_input_mode''
      else reply_unchecked env st ''ERROR invalid_args_set_input_mode'')"

definition set_output_mode_branch :: "cmd_env \<Rightarrow> session \<Rightarrow> string list \<Rightarrow> int \<times> session" where
  "set_output_mode_branch env st args =
     (if length args = 2
      then
        let mode = atoi (args ! 1);
            st1 = st\<lparr>tb_calls := tb_calls st @ [Tb_select_output_mode mode]\<rparr>
        in
        if output_mode_ret env mode < 0
        then reply_unchecked env st1 ''ERROR tb_select_output_mode_failed''
        else reply_checked env st1 ''OK'' ''Error writing OK response for set_output_mode''
      else reply_unchecked env st ''ERROR invalid_args_set_output_mode'')"

definition set_clear_attributes_branch :: "cmd_env \<Rightarrow> session \<Rightarrow> string list \<Rightarrow> int \<times> session" where
  "set_clear_attributes_branch env st args =
     (if length args = 3
      then reply_checked env
             (st\<lparr>tb_calls := tb_calls st @
                [Tb_set_clear_attributes (word_of_int (atoi (args ! 1)))
                   (word_of_int (atoi (args ! 2)))]\<rparr>)
             ''OK'' ''Error writing OK response for set_clear_attributes''
      else reply_unchecked env st ''ERROR invalid_args_set_clear_attributes'')"

definition debug_send_event_branch :: "cmd_env \<Rightarrow> session \<Rightarrow> string list \<Rightarrow> int \<times> session" where
  "debug_send_event_branch env st args =
     (if length args = 9
      then
        (0, send_event_to_client (write_ok env) st
              \<lparr>ev_type = word_of_int (atoi (args ! 1)),
               ev_mod = word_of_int (atoi (args ! 2)),
               ev_key = word_of_int (atoi (args ! 3)),
               ev_ch = word_of_nat (strtoul (args ! 4)),
               ev_w = atoi (args ! 5),
               ev_h = atoi (args ! 6),
               ev_x = atoi (args ! 7),
               ev_y = atoi (args ! 8)\<rparr>)
      else reply_unchecked env st ''ERROR invalid_args_debug_send_event'')"

text \<open>
  \<^verbatim>\<open>handle_client_command\<close>: the line is tokenised, an empty line is ignored, and the
  first token selects the branch by \<^verbatim>\<open>strcmp\<close>, in the order of the source.  The result
  is the function's return value and the session after it.  \<^verbatim>\<open>shutdown\<close> answers
  \<^verbatim>\<open>OK\<close> without looking at the result of the write and returns 1.
\<close>

definition handle_client_command ::
  "termbox \<Rightarrow> cmd_env \<Rightarrow> session \<Rightarrow> string \<Rightarrow> (int \<times> session) option" where
  "handle_client_command tb env st command_line =
     (let args = collect_args MAX_ARGS (c_str (strip_eol command_line)) in
      if args = [] then Some (0, st)
      else
        let cmd = args ! 0 in
        if cmd = ''present'' then Some (present_branch env st args)
        else if cmd = ''clear'' then Some (clear_branch tb env st args)
        else if cmd = ''print'' then print_branch tb env st args
        else if cmd = ''change_cell'' then Some (change_cell_branch env st args)
        else if cmd = ''get_cell'' then Some (get_cell_branch tb env st args)
        else if cmd = ''width'' then Some (width_branch env st args)
        else if cmd = ''height'' then Some (height_branch env st args)
        else if cmd = ''set_cursor'' then Some (set_cursor_branch env st args)
        else if cmd = ''set_input_mode'' then Some (set_input_mode_branch env st args)
        else if cmd = ''set_output_mode'' then Some (set_output_mode_branch env st args)
        else if cmd = ''set_clear_attributes'' then Some (set_clear_attributes_branch env st args)
        else if cmd = ''DEBUG_SEND_EVENT'' then Some (debug_send_event_branch env st args)
        else if cmd = ''shutdown''
        then Some (1, snd (write_socket_line (write_ok env) st ''OK''))
        else Some (reply_unchecked env st ''ERROR unknown_command''))"

subsection \<open>The serving loop\<close>

text \<open>
  \<^verbatim>\<open>strchr(line_start, '\n')\<close> on the receive buffer, which is NUL-terminated at
  \<^verbatim>\<open>buffer_pos\<close>: the offset of the first newline, if one comes before the first NUL.
\<close>

fun strchr_nl :: "string \<Rightarrow> nat option" where
  "strchr_nl [] = None"
| "strchr_nl (c # cs) =
     (if c = CHR 0x0A then Some 0
      else if c = CHR 0x00 then None
      else map_option Suc (strchr_nl cs))"

text \<open>What a \<^verbatim>\<open>read\<close> on the client socket gives: a failure (with whether \<^verbatim>\<open>errno\<close> is
  \<^verbatim>\<open>EINTR\<close>), or the bytes that are there to be read (none when the peer has closed).\<close>

datatype read_result =
    Read_failed bool
  | Read_bytes string

text \<open>
  What the environment answers during one iteration of the serving loop: the result of
  \<^verbatim>\<open>tb_peek_event\<close> and the event it stores, the allocator (used when the event is a
  resize), whether the event line can be written, the result of \<^verbatim>\<open>select\<close> (with whether
  \<^verbatim>\<open>errno\<close> is \<^verbatim>\<open>EINTR\<close> and whether the client socket is in the set afterwards), the
  result of \<^verbatim>\<open>read\<close>, and the environment of the \<open>k\<close>-th command line of this iteration.
\<close>

record iter_env =
  peek_ret :: int
  peek_event :: tb_event
  malloc_ret :: "nat \<Rightarrow> (nat \<Rightarrow> tb_cell) option"
  event_write_ok :: bool
  select_ret :: int
  select_eintr :: bool
  fd_isset :: bool
  read_ret :: read_result
  cmd_envs :: "nat \<Rightarrow> cmd_env"

text \<open>
  The variables of \<^verbatim>\<open>run_main_loop\<close> that live across iterations.  \<open>socket_buffer\<close> is
  the bytes of the C array from \<^verbatim>\<open>line_start\<close> (the start of the array between two
  iterations) up to \<^verbatim>\<open>buffer_pos\<close>.
\<close>

record loop_vars =
  sess :: session
  socket_buffer :: string
  keep_running :: bool
  loop_exit_status :: int

text \<open>
  The inner loop: every complete line of the buffer is handed to
  \<^verbatim>\<open>handle_client_command\<close>; a result of 1 stops the serving loop with status 0, a
  negative result stops it with status 1.
\<close>

function process_lines ::
  "termbox \<Rightarrow> (nat \<Rightarrow> cmd_env) \<Rightarrow> nat \<Rightarrow> loop_vars \<Rightarrow> loop_vars option" where
  "process_lines tb envs k lv =
     (case strchr_nl (socket_buffer lv) of
        None \<Rightarrow> Some lv
      | Some i \<Rightarrow>
          (case handle_client_command tb (envs k) (sess lv) (take i (socket_buffer lv)) of
             None \<Rightarrow> None
           | Some (cmd_result, st') \<Rightarrow>
               if cmd_result = 1
               then Some (lv\<lparr>sess := st', keep_running := False, loop_exit_status := 0\<rparr>)
               else if cmd_result < 0
               then Some (lv\<lparr>sess := st', keep_running := False, loop_exit_status := 1\<rparr>)
               else process_lines tb envs (Suc k)
                      (lv\<lparr>sess := st', socket_buffer := drop (Suc i) (socket_buffer lv)\<rparr>)))"
  by pat_completeness auto
termination
proof (relation "measure (\<lambda>(tb, envs, k, lv). length (socket_buffer lv))")
  show "wf (measure (\<lambda>(tb, envs, k, lv). length (socket_buffer lv)))"
    by simp
next
  fix tb :: termbox and envs :: "nat \<Rightarrow> cmd_env" and k :: nat and lv :: loop_vars
    and i :: nat and r :: "int \<times> session" and c :: int and st' :: session
  assume found: "strchr_nl (socket_buffer lv) = Some i"
  have bound: "strchr_nl s = Some j \<Longrightarrow> j < length s" for s j
    by (induction s arbitrary: j) (auto split: if_splits)
  from bound [OF found]
  show "((tb, envs, Suc k, lv\<lparr>sess := st', socket_buffer := drop (Suc i) (socket_buffer lv)\<rparr>),
         (tb, envs, k, lv)) \<in> measure (\<lambda>(tb, envs, k, lv). length (socket_buffer lv))"
    by simp
qed

text \<open>
  Steps 2 and 3 of an iteration: \<^verbatim>\<open>select\<close> with a zero timeout, then \<^verbatim>\<open>read\<close> into the
  free part of the buffer, the inner loop, and the move of an incomplete last line to the
  start of the buffer.  A \<^verbatim>\<open>continue\<close> ends the iteration with the variables as they are.
\<close>

definition socket_step :: "termbox \<Rightarrow> iter_env \<Rightarrow> loop_vars \<Rightarrow> loop_vars option" where
  "socket_step tb e lv =
     (if select_ret e < 0 \<and> select_eintr e then Some lv
      else if select_ret e = 0 then Some lv
      else
        let lv1 = (if select_ret e < 0
                   then lv\<lparr>sess := (sess lv)\<lparr>stderr_out := stderr_out (sess lv) @
                                 [Perror ''select() error'']\<rparr>,
                           keep_running := False, loop_exit_status := 1\<rparr>
                   else lv)
        in
        if \<not> fd_isset e then Some lv1
        else
          (case read_ret e of
             Read_failed eintr \<Rightarrow>
               if eintr then Some lv1
               else Some (lv1\<lparr>sess := (sess lv1)\<lparr>stderr_out := stderr_out (sess lv1) @
                                 [Perror ''read() error from client socket'']\<rparr>,
                              keep_running := False, loop_exit_status := 1\<rparr>)
           | Read_bytes avail \<Rightarrow>
               let got = take (SOCKET_BUFFER_SIZE - 1 - length (socket_buffer lv1)) avail in
               if got = [] then Some (lv1\<lparr>keep_running := False, loop_exit_status := 0\<rparr>)
               else
                 (case process_lines tb (cmd_envs e) 0
                         (lv1\<lparr>socket_buffer := socket_buffer lv1 @ got\<rparr>) of
                    None \<Rightarrow> None
                  | Some lv2 \<Rightarrow>
                      if \<not> keep_running lv2 then Some lv2
                      else if length (socket_buffer lv2) \<ge> SOCKET_BUFFER_SIZE - 1
                      then Some (lv2\<lparr>socket_buffer := []\<rparr>)
                      else Some lv2)))"

text \<open>
  Step 1 of an iteration: \<^verbatim>\<open>tb_peek_event\<close> with a timeout of 10 ms; a resize event
  resizes the shadow buffer first; the event is then sent to the client.
\<close>

definition event_step :: "termbox \<Rightarrow> iter_env \<Rightarrow> session \<Rightarrow> session option" where
  "event_step tb e st =
     (let st0 = st\<lparr>tb_calls := tb_calls st @ [Tb_peek_event 10]\<rparr> in
      if peek_ret e > 0
      then
        (case (if ev_type (peek_event e) = TB_EVENT_RESIZE tb
               then update_shadow_buffer_size tb (malloc_ret e) st0
                      (ev_w (peek_event e)) (ev_h (peek_event e))
               else Some st0) of
           None \<Rightarrow> None
         | Some st1 \<Rightarrow> Some (send_event_to_client (event_write_ok e) st1 (peek_event e)))
      else Some st0)"

definition loop_body :: "termbox \<Rightarrow> iter_env \<Rightarrow> loop_vars \<Rightarrow> loop_vars option" where
  "loop_body tb e lv =
     (case event_step tb e (sess lv) of
        None \<Rightarrow> None
      | Some st \<Rightarrow> socket_step tb e (lv\<lparr>sess := st\<rparr>))"

text \<open>
  \<^verbatim>\<open>while (keep_running) { ... }\<close>, run against the answers of the environment, one
  \<open>iter_env\<close> for each iteration.  The loop has no bound of its own: when the answers
  run out while it is still running, the model has no result.
\<close>

fun serve :: "termbox \<Rightarrow> loop_vars \<Rightarrow> iter_env list \<Rightarrow> loop_vars option" where
  "serve tb lv [] = (if keep_running lv then None else Some lv)"
| "serve tb lv (e # es) =
     (if keep_running lv
      then (case loop_body tb e lv of
              None \<Rightarrow> None
            | Some lv' \<Rightarrow> serve tb lv' es)
      else Some lv)"

subsection \<open>The process\<close>

text \<open>What the operating system answers to the calls of \<^verbatim>\<open>main\<close> and of the start of
  \<^verbatim>\<open>run_main_loop\<close>, and the answers for the iterations of the serving loop.\<close>

record proc_env =
  socket_ret :: int
  getpid_ret :: int
  bind_ret :: int
  listen_ret :: int
  accept_ret :: int
  fcntl_getfl_ret :: int
  fcntl_setfl_ret :: int
  iterations :: "iter_env list"

definition initial_session :: session where
  "initial_session =
     \<lparr>shadow_buffer = None, shadow_buffer_width = 0, shadow_buffer_height = 0,
      tb_calls = [], sock_writes = [], stdout_out = [], stderr_out = [], sys_calls = []\<rparr>"

definition log_stderr :: "session \<Rightarrow> log_entry list \<Rightarrow> session" where
  "log_stderr st es = st\<lparr>stderr_out := stderr_out st @ es\<rparr>"

definition sys :: "session \<Rightarrow> sys_call list \<Rightarrow> session" where
  "sys st cs = st\<lparr>sys_calls := sys_calls st @ cs\<rparr>"

text \<open>
  \<^verbatim>\<open>run_main_loop\<close>: accept one client, make its socket non-blocking, serve, then shut
  termbox down and close the client socket.  The result is the function's return value.
\<close>

definition run_main_loop ::
  "termbox \<Rightarrow> proc_env \<Rightarrow> session \<Rightarrow> int \<Rightarrow> string \<Rightarrow> (int \<times> session) option" where
  "run_main_loop tb env st listen_fd actual_socket_path =
     (let st1 = sys (log_stderr st
                  [Fprintf (''termbox_port C_LOG: Entering main loop. Waiting for client connection on fd '' @
                            show_int listen_fd @ '' at path '' @ actual_socket_path @ ''...'')])
                  [Sys_accept]
      in
      if accept_ret env = - 1
      then Some (1, log_stderr st1
                      [Perror ''Error accepting client connection'',
                       Fprintf ''termbox_port C_LOG ERROR: Failed to accept UDS connection.''])
      else
        let st2 = sys (log_stderr st1 [Fprintf ''termbox_port C_LOG: Client connected successfully.''])
                    [Sys_fcntl_getfl]
        in
        if fcntl_getfl_ret env = - 1
        then Some (1, sys (log_stderr st2 [Perror ''Error getting socket flags'']) [Sys_close_client])
        else if fcntl_setfl_ret env = - 1
        then Some (1, sys (log_stderr (sys st2 [Sys_fcntl_setfl])
                             [Perror ''Error setting socket to non-blocking''])
                        [Sys_close_client])
        else
          (case serve tb \<lparr>sess = sys st2 [Sys_fcntl_setfl], socket_buffer = [],
                           keep_running = True, loop_exit_status = 1\<rparr> (iterations env) of
             None \<Rightarrow> None
           | Some lv \<Rightarrow>
               Some (loop_exit_status lv,
                     sys ((sess lv)\<lparr>tb_calls := tb_calls (sess lv) @ [Tb_shutdown]\<rparr>)
                       [Sys_close_client])))"

text \<open>
  \<^verbatim>\<open>main\<close>: create, bind and listen on the socket at \<^verbatim>\<open>/tmp/termbox_port_<pid>.sock\<close>,
  print \<^verbatim>\<open>OK <path>\<close> on the standard output, run the loop.  The result is the exit code
  of the process.
\<close>

definition main :: "termbox \<Rightarrow> proc_env \<Rightarrow> (int \<times> session) option" where
  "main tb env =
     (let st0 = sys (log_stderr initial_session
                  [Fprintf ''termbox_port C_LOG: Port process starting up (UDS PATH VIA STDOUT MODE).''])
                  [Sys_socket]
      in
      if socket_ret env = - 1
      then Some (1, log_stderr st0
                      [Perror ''Error creating listen socket'', Fprintf ''error socket_create_failed''])
      else
        let actual_socket_path =
              take 255 (''/tmp/termbox_port_'' @ show_int (getpid_ret env) @ ''.sock'');
            st1 = sys st0 [Sys_unlink actual_socket_path, Sys_bind (take 107 actual_socket_path)]
        in
        if bind_ret env = - 1
        then Some (1, log_stderr
                        (sys (log_stderr st1 [Perror ''Error binding socket''])
                           [Sys_close_listen, Sys_unlink actual_socket_path])
                        [Fprintf ''error socket_bind_failed''])
        else if listen_ret env = - 1
        then Some (1, log_stderr
                        (sys (log_stderr (sys st1 [Sys_listen]) [Perror ''Error listening on socket''])
                           [Sys_close_listen, Sys_unlink actual_socket_path])
                        [Fprintf ''error socket_listen_failed''])
        else
          (case run_main_loop tb env
                  ((sys st1 [Sys_listen])\<lparr>stdout_out := stdout_out st1 @ [''OK '' @ actual_socket_path]\<rparr>)
                  (socket_ret env) actual_socket_path of
             None \<Rightarrow> None
           | Some (result, st) \<Rightarrow>
               Some (if result = 0 then 0 else 1,
                     log_stderr st [Fprintf ''termbox_port C_LOG: Port process exiting.''])))"

subsection \<open>An instance of the termbox parameters\<close>

text \<open>
  Modelled from the spec: the termbox library (\<^verbatim>\<open>termbox.h\<close>, \<^verbatim>\<open>tb_utf8_char_to_unicode\<close>,
  \<^verbatim>\<open>tb_utf8_unicode_to_char\<close>) is not among the port's sources.  The spec says that
  text is decoded ``as a sequence of Unicode scalar values'', that a cell is answered
  with the ``utf8-text-of-codepoint'', and that the default cell is the ``space codepoint,
  default foreground/background''.  The instance below implements UTF-8 sequences of one
  to four bytes, takes 0 for the default attribute and 2 for the resize event type.  It is
  used to run the model on concrete inputs; the theorems hold for every instance.
\<close>

definition utf8_len :: "nat \<Rightarrow> nat" where
  "utf8_len b = (if b < 0xC0 then 1 else if b < 0xE0 then 2 else if b < 0xF0 then 3 else 4)"

definition utf8_decode :: "string \<Rightarrow> int \<times> u32" where
  "utf8_decode s =
     (case s of
        [] \<Rightarrow> (- 1, 0)
      | c # cs \<Rightarrow>
          let b = (of_char c :: nat);
              n = utf8_len b;
              lead = (if n = 1 then b mod 128 else if n = 2 then b mod 32
                      else if n = 3 then b mod 16 else b mod 8)
          in (int n,
              word_of_nat
                (foldl (\<lambda>a k. a * 64 + (of_char k :: nat) mod 64) lead
                   (take (n - 1) (cs @ replicate 3 (CHR 0x00))))))"

definition utf8_encode :: "u32 \<Rightarrow> int \<times> string" where
  "utf8_encode w =
     (let c = unat w in
      if c < 0x80 then (1, [char_of c])
      else if c < 0x800 then (2, [char_of (0xC0 + c div 64), char_of (0x80 + c mod 64)])
      else if c < 0x10000
      then (3, [char_of (0xE0 + c div 4096), char_of (0x80 + (c div 64) mod 64),
                char_of (0x80 + c mod 64)])
      else if c < 0x200000
      then (4, [char_of (0xF0 + c div 262144), char_of (0x80 + (c div 4096) mod 64),
                char_of (0x80 + (c div 64) mod 64), char_of (0x80 + c mod 64)])
      else (0, []))"

definition utf8_termbox :: termbox where
  "utf8_termbox =
     \<lparr>TB_DEFAULT = 0, TB_EVENT_RESIZE = 2,
      tb_utf8_char_to_unicode = utf8_decode, tb_utf8_unicode_to_char = utf8_encode\<rparr>"

text \<open>An environment in which every write succeeds and the terminal is 80 by 24.\<close>

definition quiet_env :: cmd_env where
  "quiet_env =
     \<lparr>write_ok = True, width_ret = 80, height_ret = 24,
      input_mode_ret = (\<lambda>m. m), output_mode_ret = (\<lambda>m. m)\<rparr>"

text \<open>The same environment with a socket that refuses the write.\<close>

definition broken_env :: cmd_env where
  "broken_env = quiet_env\<lparr>write_ok := False\<rparr>"

text \<open>A session whose shadow buffer is 3 columns by 2 rows of default cells.\<close>

definition small_session :: session where
  "small_session =
     initial_session\<lparr>shadow_buffer := Some (replicate 6 (default_cell utf8_termbox)),
                     shadow_buffer_width := 3, shadow_buffer_height := 2\<rparr>"

subsection \<open>Commands as the client writes them\<close>

text \<open>
  The wire format of a command: its tokens, one space between two of them.  A plain token
  is not empty and holds no space, no NUL, no newline and no carriage return.
\<close>

fun command_line :: "string list \<Rightarrow> string" where
  "command_line [] = []"
| "command_line [t] = t"
| "command_line (t # u # ts) = t @ CHR '' '' # command_line (u # ts)"

definition plain_token :: "string \<Rightarrow> bool" where
  "plain_token t =
     (t \<noteq> [] \<and> list_all (\<lambda>c. c \<noteq> CHR '' '' \<and> c \<noteq> CHR 0x00 \<and> c \<noteq> CHR 0x0A \<and> c \<noteq> CHR 0x0D) t)"

text \<open>
  The verbs whose branch checks the number of tokens, with the number (the verb counted)
  that the branch accepts, and the lower case of a character.
\<close>

datatype arity = Exactly nat | At_least nat

definition checked_arities :: "(string \<times> arity) list" where
  "checked_arities =
     [(''present'', Exactly 1), (''clear'', Exactly 1), (''print'', At_least 6),
      (''change_cell'', Exactly 6), (''get_cell'', Exactly 3), (''width'', Exactly 1),
      (''height'', Exactly 1), (''set_cursor'', Exactly 3), (''set_input_mode'', Exactly 2),
      (''set_output_mode'', Exactly 2), (''set_clear_attributes'', Exactly 3),
      (''DEBUG_SEND_EVENT'', Exactly 9)]"

fun arity_ok :: "arity \<Rightarrow> nat \<Rightarrow> bool" where
  "arity_ok (Exactly n) argc = (argc = n)"
| "arity_ok (At_least n) argc = (n \<le> argc)"

definition to_lower :: "char \<Rightarrow> char" where
  "to_lower c =
     (if 65 \<le> (of_char c :: nat) \<and> (of_char c :: nat) \<le> 90
      then char_of ((of_char c :: nat) + 32) else c)"

subsection \<open>Lines as the client sends them\<close>

text \<open>
  A text line holds no newline and no NUL.  \<open>wire\<close> is the byte stream of a list of
  lines, each followed by its newline.  \<open>dispatch_lines\<close> hands the lines of a list to
  \<^verbatim>\<open>handle_client_command\<close> one after the other, first to last, the \<open>k\<close>-th line in the
  \<open>k\<close>-th environment, until one returns 1 (the result is then \<open>Some 0\<close>, the exit
  status) or a negative value (\<open>Some 1\<close>); \<open>None\<close> as the second component says that
  every line was dispatched and the loop goes on.
\<close>

definition text_line :: "string \<Rightarrow> bool" where
  "text_line l = list_all (\<lambda>c. c \<noteq> CHR 0x0A \<and> c \<noteq> CHR 0x00) l"

definition wire :: "string list \<Rightarrow> string" where
  "wire ls = concat (map (\<lambda>l. l @ [CHR 0x0A]) ls)"

fun dispatch_lines ::
  "termbox \<Rightarrow> (nat \<Rightarrow> cmd_env) \<Rightarrow> nat \<Rightarrow> session \<Rightarrow> string list \<Rightarrow> (session \<times> int option) option" where
  "dispatch_lines tb envs k st [] = Some (st, None)"
| "dispatch_lines tb envs k st (l # ls) =
     (case handle_client_command tb (envs k) st l of
        None \<Rightarrow> None
      | Some (cmd_result, st') \<Rightarrow>
          if cmd_result = 1 then Some (st', Some 0)
          else if cmd_result < 0 then Some (st', Some 1)
          else dispatch_lines tb envs (Suc k) st' ls)"

subsection \<open>Environments for running the model\<close>

text \<open>
  A key event and a resize event; an iteration in which nothing happens (no event, no
  byte on the socket, an allocator that would succeed); an iteration in which the given
  bytes arrive; an iteration in which the given event is pending; one with both (\<open>busy\<close>);
  the first two with a
  socket that refuses every write; and a process environment in which every system call
  of the start-up succeeds.
\<close>

definition key_event :: tb_event where
  "key_event =
     \<lparr>ev_type = 1, ev_mod = 0, ev_key = 0, ev_ch = 97, ev_w = 0, ev_h = 0, ev_x = 0, ev_y = 0\<rparr>"

definition resize_event :: "int \<Rightarrow> int \<Rightarrow> tb_event" where
  "resize_event w h =
     \<lparr>ev_type = 2, ev_mod = 0, ev_key = 0, ev_ch = 0, ev_w = w, ev_h = h, ev_x = 0, ev_y = 0\<rparr>"

definition idle_iter :: iter_env where
  "idle_iter =
     \<lparr>peek_ret = 0, peek_event = key_event,
      malloc_ret = (\<lambda>n. Some (\<lambda>i. \<lparr>ch = 0, fg = 0, bg = 0\<rparr>)),
      event_write_ok = True, select_ret = 0, select_eintr = False, fd_isset = False,
      read_ret = Read_bytes [], cmd_envs = (\<lambda>k. quiet_env)\<rparr>"

definition incoming :: "string \<Rightarrow> iter_env" where
  "incoming bytes = idle_iter\<lparr>select_ret := 1, fd_isset := True, read_ret := Read_bytes bytes\<rparr>"

definition pending :: "tb_event \<Rightarrow> iter_env" where
  "pending ev = idle_iter\<lparr>peek_ret := 1, peek_event := ev\<rparr>"

definition busy :: "tb_event \<Rightarrow> string \<Rightarrow> iter_env" where
  "busy ev bytes = (incoming bytes)\<lparr>peek_ret := 1, peek_event := ev\<rparr>"

definition incoming_broken :: "string \<Rightarrow> iter_env" where
  "incoming_broken bytes = (incoming bytes)\<lparr>cmd_envs := (\<lambda>k. broken_env)\<rparr>"

definition pending_broken :: "tb_event \<Rightarrow> iter_env" where
  "pending_broken ev = (pending ev)\<lparr>event_write_ok := False\<rparr>"

definition good_boot :: "iter_env list \<Rightarrow> proc_env" where
  "good_boot its =
     \<lparr>socket_ret = 3, getpid_ret = 4242, bind_ret = 0, listen_ret = 0, accept_ret = 4,
      fcntl_getfl_ret = 2, fcntl_setfl_ret = 0, iterations = its\<rparr>"

subsection \<open>The loop and the process, stage by stage\<close>

text \<open>
  \<open>iterate\<close> runs the serving loop over the answers given and stops there: the result
  is the state of the loop at that point, running or not.  \<open>serving\<close> is the state in
  which a process enters the serving loop when every call of its start-up succeeds,
  \<open>socket_path\<close> the path it listens on, and \<open>finished\<close> what \<^verbatim>\<open>run_main_loop\<close> and
  \<^verbatim>\<open>main\<close> do after the loop: the exit code and the final state of the process.
\<close>

fun iterate :: "termbox \<Rightarrow> loop_vars \<Rightarrow> iter_env list \<Rightarrow> loop_vars option" where
  "iterate tb lv [] = Some lv"
| "iterate tb lv (e # es) =
     (if keep_running lv
      then (case loop_body tb e lv of
              None \<Rightarrow> None
            | Some lv' \<Rightarrow> iterate tb lv' es)
      else Some lv)"

definition socket_path :: "proc_env \<Rightarrow> string" where
  "socket_path env = take 255 (''/tmp/termbox_port_'' @ show_int (getpid_ret env) @ ''.sock'')"

definition serving :: "proc_env \<Rightarrow> loop_vars" where
  "serving env =
     \<lparr>sess = initial_session
        \<lparr>stdout_out := [''OK '' @ socket_path env],
         stderr_out :=
           [Fprintf ''termbox_port C_LOG: Port process starting up (UDS PATH VIA STDOUT MODE).'',
            Fprintf (''termbox_port C_LOG: Entering main loop. Waiting for client connection on fd '' @
                     show_int (socket_ret env) @ '' at path '' @ socket_path env @ ''...''),
            Fprintf ''termbox_port C_LOG: Client connected successfully.''],
         sys_calls :=
           [Sys_socket, Sys_unlink (socket_path env), Sys_bind (take 107 (socket_path env)),
            Sys_listen, Sys_accept, Sys_fcntl_getfl, Sys_fcntl_setfl]\<rparr>,
      socket_buffer = [], keep_running = True, loop_exit_status = 1\<rparr>"

definition finished :: "loop_vars \<Rightarrow> int \<times> session" where
  "finished lv =
     (if loop_exit_status lv = 0 then 0 else 1,
      (sess lv)\<lparr>tb_calls := tb_calls (sess lv) @ [Tb_shutdown],
                sys_calls := sys_calls (sess lv) @ [Sys_close_client],
                stderr_out := stderr_out (sess lv) @
                  [Fprintf ''termbox_port C_LOG: Port process exiting.'']\<rparr>)"

text \<open>
  What a failed write does to the result \<open>r\<close> of a command that takes the session from
  \<open>st\<close> to \<open>st'\<close>: the result is 1 exactly when the line whose write failed was a
  success response (it starts with \<^verbatim>\<open>OK\<close>), and 0 otherwise.
\<close>

definition ok_failed :: "session \<Rightarrow> int \<Rightarrow> session \<Rightarrow> bool" where
  "ok_failed st r st' =
     ((r = 1) = (\<exists>resp. sock_writes st' = sock_writes st @ [(resp, False)] \<and> take 2 resp = ''OK'')
      \<and> (r = 0 \<or> r = 1))"

text \<open>
  The lines written to the client in \<open>st'\<close> are those of \<open>st\<close> followed by further
  ones: nothing written earlier is removed or reordered.
\<close>

definition appends :: "session \<Rightarrow> session \<Rightarrow> bool" where
  "appends st st' = (\<exists>ws. sock_writes st' = sock_writes st @ ws)"

text \<open>
  The session when \<^verbatim>\<open>main\<close> has printed \<^verbatim>\<open>OK <path>\<close> and is about to call
  \<^verbatim>\<open>run_main_loop\<close>; what \<^verbatim>\<open>main\<close> makes of the result of \<^verbatim>\<open>run_main_loop\<close>; and
  three process environments in which one call of the start-up fails.
\<close>

definition listening :: "proc_env \<Rightarrow> session" where
  "listening env =
     initial_session
       \<lparr>stdout_out := [''OK '' @ socket_path env],
        stderr_out :=
          [Fprintf ''termbox_port C_LOG: Port process starting up (UDS PATH VIA STDOUT MODE).''],
        sys_calls :=
          [Sys_socket, Sys_unlink (socket_path env), Sys_bind (take 107 (socket_path env)),
           Sys_listen]\<rparr>"

definition exit_of :: "int \<times> session \<Rightarrow> int \<times> session" where
  "exit_of res =
     (if fst res = 0 then 0 else 1,
      log_stderr (snd res) [Fprintf ''termbox_port C_LOG: Port process exiting.''])"

definition no_socket :: proc_env where
  "no_socket = (good_boot [])\<lparr>socket_ret := - 1\<rparr>"

definition no_bind :: proc_env where
  "no_bind = (good_boot [])\<lparr>bind_ret := - 1\<rparr>"

definition no_listen :: proc_env where
  "no_listen = (good_boot [])\<lparr>listen_ret := - 1\<rparr>"

text \<open>An iteration in which the given event is pending and the allocator has no memory
  to give.\<close>

definition pending_no_memory :: "tb_event \<Rightarrow> iter_env" where
  "pending_no_memory ev = (pending ev)\<lparr>malloc_ret := (\<lambda>n. None)\<rparr>"

text \<open>
  The encoder and the decoder of termbox agree on the code point \<open>c\<close>: the encoder
  reports at least one byte, the text that \<^verbatim>\<open>get_cell\<close> prints for \<open>c\<close> (the buffer up to its
  first NUL, 7 bytes at most) is not empty, and the decoder reads that text, all of it, as
  \<open>c\<close>.
\<close>

definition round_trips :: "termbox \<Rightarrow> u32 \<Rightarrow> bool" where
  "round_trips tb c =
     (case tb_utf8_unicode_to_char tb c of
        (bytes_written, utf8_buffer) \<Rightarrow>
          0 < bytes_written \<and> c_str (take 7 utf8_buffer) \<noteq> [] \<and>
          tb_utf8_char_to_unicode tb (c_str (take 7 utf8_buffer)) =
            (int (length (c_str (take 7 utf8_buffer))), c))"

subsection \<open>The cache between a resize and a read\<close>

text \<open>
  Whether a list of backend calls holds a \<^verbatim>\<open>tb_change_cell\<close> at \<open>(x, y)\<close>; the cell that
  \<^verbatim>\<open>get_cell\<close> reads at \<open>(x, y)\<close>, if its bounds check lets it read one; a cache of \<open>W\<close> by
  \<open>H\<close> cells with its storage; and the relation between two sessions that is kept by
  every step of the port but a resize: the backend calls of the second extend those of
  the first, a cache of \<open>W\<close> by \<open>H\<close> cells stays one, and a default cell at \<open>(x, y)\<close>
  stays the default cell unless one of the new calls paints it.
\<close>

definition paints :: "int \<Rightarrow> int \<Rightarrow> tb_call list \<Rightarrow> bool" where
  "paints x y calls =
     list_ex (\<lambda>c. case c of Tb_change_cell x' y' cp f b \<Rightarrow> x' = x \<and> y' = y | _ \<Rightarrow> False) calls"

definition cell_at :: "session \<Rightarrow> int \<Rightarrow> int \<Rightarrow> tb_cell option" where
  "cell_at st x y =
     (case shadow_buffer st of
        None \<Rightarrow> None
      | Some cells \<Rightarrow>
          if x < 0 \<or> x \<ge> shadow_buffer_width st \<or> y < 0 \<or> y \<ge> shadow_buffer_height st
          then None
          else Some (cells ! nat (y * shadow_buffer_width st + x)))"

definition sized :: "int \<Rightarrow> int \<Rightarrow> session \<Rightarrow> bool" where
  "sized W H st =
     (shadow_buffer_width st = W \<and> shadow_buffer_height st = H \<and>
      (case shadow_buffer st of None \<Rightarrow> False | Some cells \<Rightarrow> length cells = nat W * nat H))"

definition keeps :: "termbox \<Rightarrow> int \<Rightarrow> int \<Rightarrow> int \<Rightarrow> int \<Rightarrow> session \<Rightarrow> session \<Rightarrow> bool" where
  "keeps tb W H x y st st' =
     (\<exists>cs. tb_calls st' = tb_calls st @ cs \<and>
        (sized W H st \<longrightarrow>
           sized W H st' \<and>
           (cell_at st x y = Some (default_cell tb) \<and> \<not> paints x y cs \<longrightarrow>
              cell_at st' x y = Some (default_cell tb))))"

text \<open>
  The sessions that the port reaches from \<open>st0\<close> without a resize: by dispatching a
  command line, by step 1 of an iteration when no resize event is pending, and by
  logging an error of \<^verbatim>\<open>select\<close> or \<^verbatim>\<open>read\<close>.
\<close>

inductive reached :: "termbox \<Rightarrow> session \<Rightarrow> session \<Rightarrow> bool" for tb :: termbox and st0 :: session where
  start: "reached tb st0 st0"
| command:
    "reached tb st0 st \<Longrightarrow> handle_client_command tb env st line = Some (r, st')
     \<Longrightarrow> reached tb st0 st'"
| event:
    "reached tb st0 st \<Longrightarrow> event_step tb e st = Some st'
     \<Longrightarrow> \<not> (0 < peek_ret e \<and> ev_type (peek_event e) = TB_EVENT_RESIZE tb)
     \<Longrightarrow> reached tb st0 st'"
| logged:
    "reached tb st0 st \<Longrightarrow> reached tb st0 (st\<lparr>stderr_out := stderr_out st @ [l]\<rparr>)"

subsection \<open>The text of a print command\<close>

text \<open>
  The code points of a text, as termbox's decoder gives them one after the other, up to
  the end of the text or to the first code point 0; there is none when the decoder
  reports a code point other than 0 and no byte consumed.
\<close>

function decode_text :: "termbox \<Rightarrow> string \<Rightarrow> u32 list option" where
  "decode_text tb s =
     (if s = [] then Some []
      else
        (case tb_utf8_char_to_unicode tb s of
           (n, codepoint) \<Rightarrow>
             if codepoint = 0 then Some []
             else if n \<le> 0 then None
             else map_option (Cons codepoint) (decode_text tb (drop (nat n) s))))"
  by pat_completeness auto
termination
  by (relation "measure (\<lambda>(tb, s). length s)") auto

text \<open>
  The walk over the code points of a \<^verbatim>\<open>print\<close> command as the specification words it: one
  backend cell is painted for each code point, at increasing columns from the given one;
  the mirror write to the cache is left out exactly when the column or \<open>y\<close> is outside the
  cache; the column advances by one in both cases.
\<close>

fun print_walk :: "session \<Rightarrow> int \<Rightarrow> int \<Rightarrow> u16 \<Rightarrow> u16 \<Rightarrow> u32 list \<Rightarrow> session" where
  "print_walk st column y f b [] = st"
| "print_walk st column y f b (codepoint # rest) =
     print_walk
       (st\<lparr>tb_calls := tb_calls st @ [Tb_change_cell column y codepoint f b],
           shadow_buffer :=
             (if column < 0 \<or> column \<ge> shadow_buffer_width st \<or> y < 0 \<or> y \<ge> shadow_buffer_height st
              then shadow_buffer st
              else map_option
                     (\<lambda>cells. cells[nat (y * shadow_buffer_width st + column) :=
                                      \<lparr>ch = codepoint, fg = f, bg = b\<rparr>])
                     (shadow_buffer st))\<rparr>)
       (column + 1) y f b rest"

subsection \<open>The tokens of a line\<close>

text \<open>
  A string cut at every space, and its tokens: the pieces between the spaces that are not
  empty.  This is the specification's reading of a command line, to be compared with what
  \<^verbatim>\<open>strtok\<close> gives.
\<close>

fun split_sp :: "string \<Rightarrow> string list" where
  "split_sp [] = [[]]"
| "split_sp (c # cs) =
     (if c = CHR '' '' then [] # split_sp cs
      else (case split_sp cs of [] \<Rightarrow> [[c]] | w # ws \<Rightarrow> (c # w) # ws))"

definition space_tokens :: "string \<Rightarrow> string list" where
  "space_tokens s = filter (\<lambda>w. w \<noteq> []) (split_sp s)"
section \<open>Properties of the C library model\<close>

declare show_nat.simps [simp del]

lemma isdigit_digit_char: "d < 10 \<Longrightarrow> isdigit_c (char_of (48 + (d::nat)))"
  by (simp add: isdigit_c_def)

lemma digit_val_digit_char: "d < 10 \<Longrightarrow> digit_val (char_of (48 + (d::nat))) = d"
  by (simp add: digit_val_def)

lemma show_nat_nonempty: "show_nat n \<noteq> []"
  by (subst show_nat.simps) simp

lemma show_nat_digits: "c \<in> set (show_nat n) \<Longrightarrow> isdigit_c c"
proof (induction n arbitrary: c rule: show_nat.induct)
  case (1 n)
  show ?case
  proof (cases "n < 10")
    case True
    with "1.prems" show ?thesis
      by (subst (asm) show_nat.simps) (auto simp: isdigit_digit_char)
  next
    case False
    with "1.prems" have "c \<in> set (show_nat (n div 10)) \<or> c = char_of (48 + n mod 10)"
      by (subst (asm) show_nat.simps) auto
    then show ?thesis
      using "1.IH" [OF False] by (auto simp: isdigit_digit_char)
  qed
qed

lemma digits_value_snoc: "digits_value (ds @ [c]) = 10 * digits_value ds + digit_val c"
  by (simp add: digits_value_def)

lemma digits_value_show_nat: "digits_value (show_nat n) = n"
proof (induction n rule: show_nat.induct)
  case (1 n)
  show ?case
  proof (cases "n < 10")
    case True
    then show ?thesis
      by (subst show_nat.simps) (simp add: digits_value_def digit_val_digit_char)
  next
    case False
    then show ?thesis
      using "1.IH" [OF False]
      by (subst show_nat.simps) (simp add: digits_value_snoc digit_val_digit_char)
  qed
qed

lemma length_show_nat: "n < 10 ^ k \<Longrightarrow> 0 < k \<Longrightarrow> length (show_nat n) \<le> k"
proof (induction n arbitrary: k rule: show_nat.induct)
  case (1 n)
  show ?case
  proof (cases "n < 10")
    case True
    with "1.prems" show ?thesis
      by (subst show_nat.simps) simp
  next
    case False
    obtain j where k: "k = Suc j"
      using "1.prems"(2) by (cases k) auto
    from False "1.prems"(1) k have "0 < j"
      by (cases j) auto
    moreover from "1.prems"(1) k have "n div 10 < 10 ^ j"
      by (simp add: less_mult_imp_div_less mult.commute)
    ultimately have "length (show_nat (n div 10)) \<le> j"
      using "1.IH" [OF False] by blast
    with False k show ?thesis
      by (subst show_nat.simps) simp
  qed
qed

lemma isdigit_not_space: "isdigit_c c \<Longrightarrow> \<not> isspace_c c"
  by (auto simp: isdigit_c_def isspace_c_def)

lemma isdigit_not_sign: "isdigit_c c \<Longrightarrow> c \<noteq> CHR ''-'' \<and> c \<noteq> CHR ''+''"
  by (auto simp: isdigit_c_def)

lemma scan_number_digits:
  assumes "ds \<noteq> []" and "\<forall>c \<in> set ds. isdigit_c c"
  shows "scan_number ds = (False, digits_value ds)"
proof -
  obtain d rest where ds: "ds = d # rest"
    using assms(1) by (cases ds) auto
  with assms(2) have d: "isdigit_c d" and all: "\<forall>c \<in> set ds. isdigit_c c"
    by auto
  have tw: "takeWhile isdigit_c rest = rest"
    using all ds by (simp add: takeWhile_eq_all_conv)
  show ?thesis
    using d isdigit_not_space [OF d] isdigit_not_sign [OF d]
    by (simp add: scan_number_def ds tw)
qed

lemma scan_number_show_nat: "scan_number (show_nat n) = (False, n)"
  using scan_number_digits [of "show_nat n"] show_nat_digits [of _ n]
  by (simp add: show_nat_nonempty digits_value_show_nat)

lemma scan_number_minus_show_nat: "scan_number (CHR ''-'' # show_nat n) = (True, n)"
proof -
  have tw: "takeWhile isdigit_c (show_nat n) = show_nat n"
    using show_nat_digits [of _ n] by (simp add: takeWhile_eq_all_conv)
  show ?thesis
    by (simp add: scan_number_def isspace_c_def tw digits_value_show_nat)
qed

lemma strtoul_show_nat: "n < 2 ^ 64 \<Longrightarrow> strtoul (show_nat n) = n"
  by (simp add: strtoul_def scan_number_show_nat)

lemma atoi_show_int:
  assumes "- (2 ^ 31) \<le> i" and "i < 2 ^ 31"
  shows "atoi (show_int i) = i"
proof (cases "i < 0")
  case True
  with assms have "strtol (show_int i) = i"
    by (simp add: show_int_def strtol_def scan_number_minus_show_nat)
  with assms show ?thesis
    by (simp add: atoi_def signed_of_int signed_take_bit_int_eq_self)
next
  case False
  with assms have "strtol (show_int i) = i"
    by (simp add: show_int_def strtol_def scan_number_show_nat)
  with assms show ?thesis
    by (simp add: atoi_def signed_of_int signed_take_bit_int_eq_self)
qed

section \<open>Tokenising\<close>

lemma strtok_sp_Nil: "strtok_sp [] = None"
  by (simp add: strtok_sp_def)

lemma while_until:
  "\<forall>c \<in> set t. P c \<Longrightarrow> \<not> P x \<Longrightarrow>
   takeWhile P (t @ x # r) = t \<and> dropWhile P (t @ x # r) = x # r"
  by (induction t) auto

lemma collect_args_Nil: "collect_args n [] = []"
  by (cases n) (simp_all add: strtok_sp_Nil)

lemma isdigit_plain:
  "isdigit_c c \<Longrightarrow> c \<noteq> CHR '' '' \<and> c \<noteq> CHR 0x00 \<and> c \<noteq> CHR 0x0A \<and> c \<noteq> CHR 0x0D \<and> c \<noteq> CHR ''-''"
  by (auto simp: isdigit_c_def)

lemma strtok_sp_token:
  assumes "t \<noteq> []" and "CHR '' '' \<notin> set t"
  shows "strtok_sp t = Some (t, [])"
proof -
  obtain c cs where t: "t = c # cs"
    using assms(1) by (cases t) auto
  have tw: "takeWhile (\<lambda>c. c \<noteq> CHR '' '') t = t"
    using assms(2) by (auto simp: takeWhile_eq_all_conv)
  have dw: "dropWhile (\<lambda>c. c \<noteq> CHR '' '') t = []"
    using assms(2) by (auto simp: dropWhile_eq_Nil_conv)
  have sk: "dropWhile (\<lambda>c. c = CHR '' '') t = t"
    using assms(2) t by auto
  show ?thesis
    unfolding strtok_sp_def Let_def sk tw dw using assms(1) by simp
qed

lemma strtok_sp_token_space:
  assumes "t \<noteq> []" and "CHR '' '' \<notin> set t"
  shows "strtok_sp (t @ CHR '' '' # rest) = Some (t, rest)"
proof -
  obtain c cs where t: "t = c # cs"
    using assms(1) by (cases t) auto
  have "takeWhile (\<lambda>c. c \<noteq> CHR '' '') (t @ CHR '' '' # rest) = t
      \<and> dropWhile (\<lambda>c. c \<noteq> CHR '' '') (t @ CHR '' '' # rest) = CHR '' '' # rest"
    using assms(2) by (intro while_until) auto
  then have tw: "takeWhile (\<lambda>c. c \<noteq> CHR '' '') (t @ CHR '' '' # rest) = t"
    and dw: "dropWhile (\<lambda>c. c \<noteq> CHR '' '') (t @ CHR '' '' # rest) = CHR '' '' # rest"
    by simp_all
  have sk: "dropWhile (\<lambda>c. c = CHR '' '') (t @ CHR '' '' # rest) = t @ CHR '' '' # rest"
    using assms(2) t by auto
  show ?thesis
    unfolding strtok_sp_def Let_def sk tw dw using assms(1) by simp
qed

lemma collect_args_command_line:
  assumes "\<forall>t \<in> set ts. t \<noteq> [] \<and> CHR '' '' \<notin> set t"
  shows "collect_args n (command_line ts) = take n ts"
  using assms
proof (induction ts arbitrary: n rule: command_line.induct)
  case 1
  show ?case by (cases n) (simp_all add: strtok_sp_Nil)
next
  case (2 t)
  then show ?case
    by (cases n) (simp_all add: strtok_sp_token collect_args_Nil)
next
  case (3 t u ts)
  show ?case
  proof (cases n)
    case 0
    then show ?thesis by simp
  next
    case (Suc m)
    from "3.prems" have "collect_args m (command_line (u # ts)) = take m (u # ts)"
      by (intro "3.IH") simp
    with "3.prems" Suc show ?thesis
      by (simp add: strtok_sp_token_space)
  qed
qed

lemma command_line_last:
  "ts \<noteq> [] \<Longrightarrow> last ts \<noteq> [] \<Longrightarrow> command_line ts \<noteq> [] \<and> last (command_line ts) = last (last ts)"
  by (induction ts rule: command_line.induct) auto

lemma set_command_line: "set (command_line ts) \<subseteq> insert (CHR '' '') (\<Union> (set ` set ts))"
  by (induction ts rule: command_line.induct) auto

lemma strip_eol_plain:
  assumes "\<forall>t \<in> set ts. plain_token t"
  shows "c_str (strip_eol (command_line ts)) = command_line ts"
proof (cases "ts = []")
  case True
  then show ?thesis by (simp add: strip_eol_def c_str_def)
next
  case False
  with assms have l: "plain_token (last ts)"
    by simp
  then have "last ts \<noteq> []" "last (last ts) \<noteq> CHR 0x0A" "last (last ts) \<noteq> CHR 0x0D"
    by (auto simp: plain_token_def list_all_iff dest: last_in_set)
  with command_line_last [OF False] have "strip_eol (command_line ts) = command_line ts"
    by (simp add: strip_eol_def)
  moreover have "\<forall>c \<in> set (command_line ts). c \<noteq> CHR 0x00"
    using set_command_line [of ts] assms by (auto simp: plain_token_def list_all_iff)
  ultimately show ?thesis
    by (simp add: c_str_def takeWhile_eq_all_conv)
qed

lemma args_of_command_line:
  assumes "\<forall>t \<in> set ts. plain_token t"
  shows "collect_args MAX_ARGS (c_str (strip_eol (command_line ts))) = take MAX_ARGS ts"
proof -
  from assms have "\<forall>t \<in> set ts. t \<noteq> [] \<and> CHR '' '' \<notin> set t"
    by (auto simp: plain_token_def list_all_iff)
  then show ?thesis
    using assms by (simp add: strip_eol_plain collect_args_command_line)
qed

lemma plain_show_nat: "plain_token (show_nat n)"
  using show_nat_digits [of _ n] show_nat_nonempty [of n]
  by (auto simp: plain_token_def list_all_iff dest!: isdigit_plain)

lemma plain_show_int: "plain_token (show_int i)"
  using plain_show_nat by (auto simp: show_int_def plain_token_def list_all_iff)

section \<open>Dispatching\<close>

lemma plain_verbs:
  "plain_token ''present''" "plain_token ''clear''" "plain_token ''print''"
  "plain_token ''change_cell''" "plain_token ''get_cell''" "plain_token ''width''"
  "plain_token ''height''" "plain_token ''set_cursor''" "plain_token ''set_input_mode''"
  "plain_token ''set_output_mode''" "plain_token ''set_clear_attributes''"
  "plain_token ''DEBUG_SEND_EVENT''" "plain_token ''shutdown''"
  by (simp_all add: plain_token_def list_all_iff)

lemma cell_index_bound:
  assumes "0 \<le> x" "x < w" "0 \<le> y" "y < h"
  shows "nat (y * w + x) < nat w * nat h"
proof -
  have "y * w + x < y * w + w"
    using assms by simp
  also have "\<dots> = (y + 1) * w"
    by (simp add: algebra_simps)
  also have "\<dots> \<le> h * w"
    using assms by (intro mult_right_mono) auto
  finally have "y * w + x < w * h"
    by (simp add: mult.commute)
  then have "nat (y * w + x) < nat (w * h)"
    using assms by (simp only: zless_nat_conj) simp
  moreover have "nat (w * h) = nat w * nat h"
    using assms by (simp add: nat_mult_distrib)
  ultimately show ?thesis
    by simp
qed

lemma show_nat_as_int: "show_nat n = show_int (int n)"
  by (simp add: show_int_def)

lemma u16_round_trip: "(word_of_int (atoi (show_nat (unat (f :: u16)))) :: u16) = f"
proof -
  have hi: "uint f < 2 ^ 31"
    using uint_lt2p [of f] by simp
  have lo: "- (2 ^ 31) \<le> uint f"
    by (rule order_trans [of _ 0]) simp_all
  have "atoi (show_int (uint f)) = uint f"
    using lo hi by (rule atoi_show_int)
  then have "atoi (show_nat (unat f)) = uint f"
    by (simp add: show_nat_as_int)
  then show ?thesis
    by simp
qed

lemma u32_round_trip: "(word_of_nat (strtoul (show_nat (unat (c :: u32)))) :: u32) = c"
proof -
  have "unat c < 2 ^ 32"
    using unsigned_less [of c, where 'a = nat] by simp
  then have "unat c < 2 ^ 64"
    by simp
  then show ?thesis
    by (simp add: strtoul_show_nat)
qed

lemma length_show_int_coord: "0 \<le> x \<Longrightarrow> x < 2 ^ 31 \<Longrightarrow> length (show_int x) \<le> 10"
proof -
  assume "0 \<le> x" "x < 2 ^ 31"
  then have "nat x < 10 ^ 10"
    by simp
  then have "length (show_nat (nat x)) \<le> 10"
    by (rule length_show_nat) simp
  with \<open>0 \<le> x\<close> show ?thesis
    by (simp add: show_int_def)
qed

lemma length_show_u16: "length (show_nat (unat (f :: u16))) \<le> 5"
proof -
  have "unat f < 2 ^ 16"
    using unsigned_less [of f, where 'a = nat] by simp
  then have "unat f < 10 ^ 5"
    by simp
  then show ?thesis
    by (rule length_show_nat) simp
qed

lemma length_cell_text: "length (cell_text tb c) \<le> 7"
proof -
  have "length (c_str s) \<le> length s" for s
    by (simp add: c_str_def length_takeWhile_le)
  from this [of "take 7 s" for s] show ?thesis
    by (auto simp: cell_text_def split: prod.splits intro: order_trans)
qed


lemma handle_change_cell:
  assumes "plain_token tx" "plain_token ty" "plain_token tc" "plain_token tf" "plain_token tb'"
  shows "handle_client_command tb env st (command_line [''change_cell'', tx, ty, tc, tf, tb'])
         = Some (change_cell_branch env st [''change_cell'', tx, ty, tc, tf, tb'])"
proof -
  have "collect_args MAX_ARGS (c_str (strip_eol (command_line [''change_cell'', tx, ty, tc, tf, tb'])))
        = take MAX_ARGS [''change_cell'', tx, ty, tc, tf, tb']"
    using assms by (intro args_of_command_line) (simp add: plain_verbs)
  then show ?thesis
    unfolding handle_client_command_def by (simp add: MAX_ARGS_def)
qed

lemma handle_get_cell:
  assumes "plain_token tx" "plain_token ty"
  shows "handle_client_command tb env st (command_line [''get_cell'', tx, ty])
         = Some (get_cell_branch tb env st [''get_cell'', tx, ty])"
proof -
  have "collect_args MAX_ARGS (c_str (strip_eol (command_line [''get_cell'', tx, ty])))
        = take MAX_ARGS [''get_cell'', tx, ty]"
    using assms by (intro args_of_command_line) (simp add: plain_verbs)
  then show ?thesis
    unfolding handle_client_command_def by (simp add: MAX_ARGS_def)
qed

lemma write_socket_line_nonempty:
  "c_str r \<noteq> [] \<Longrightarrow>
   write_socket_line ok st r =
     (if ok then int (length (c_str r)) + 1 else - 1, st\<lparr>sock_writes := sock_writes st @ [(c_str r, ok)]\<rparr>)"
  by (simp add: write_socket_line_def)

lemma c_str_OK: "c_str ''OK'' = ''OK''"
  by (simp add: c_str_def)

lemma reply_checked_OK_fields:
  "shadow_buffer (snd (reply_checked env st ''OK'' msg)) = shadow_buffer st"
  "shadow_buffer_width (snd (reply_checked env st ''OK'' msg)) = shadow_buffer_width st"
  "shadow_buffer_height (snd (reply_checked env st ''OK'' msg)) = shadow_buffer_height st"
  "tb_calls (snd (reply_checked env st ''OK'' msg)) = tb_calls st"
  "sock_writes (snd (reply_checked env st ''OK'' msg)) = sock_writes st @ [(''OK'', write_ok env)]"
  by (simp_all add: reply_checked_def write_socket_line_def c_str_OK)

lemma c_str_id: "CHR 0x00 \<notin> set s \<Longrightarrow> c_str s = s"
  by (auto simp: c_str_def takeWhile_eq_all_conv)

lemma no_nul_c_str: "CHR 0x00 \<notin> set (c_str s)"
  by (auto simp: c_str_def dest: set_takeWhileD)

lemma no_nul_show_nat: "CHR 0x00 \<notin> set (show_nat n)"
  using plain_show_nat [of n] by (auto simp: plain_token_def list_all_iff)

lemma no_nul_show_int: "CHR 0x00 \<notin> set (show_int i)"
  using plain_show_int [of i] by (auto simp: plain_token_def list_all_iff)

lemma no_nul_cell_text: "CHR 0x00 \<notin> set (cell_text tb c)"
  by (simp add: cell_text_def no_nul_c_str split: prod.splits)

lemma change_cell_branch_in_bounds:
  assumes buf: "shadow_buffer st = Some cells"
    and x: "0 \<le> x" "x < shadow_buffer_width st" "x < 2 ^ 31"
    and y: "0 \<le> y" "y < shadow_buffer_height st" "y < 2 ^ 31"
  shows "\<exists>r st1.
      change_cell_branch env st
        [''change_cell'', show_int x, show_int y, show_nat (unat c), show_nat (unat f), show_nat (unat b)]
        = (r, st1)
    \<and> shadow_buffer st1 =
        Some (cells[nat (y * shadow_buffer_width st + x) := \<lparr>ch = c, fg = f, bg = b\<rparr>])
    \<and> shadow_buffer_width st1 = shadow_buffer_width st
    \<and> shadow_buffer_height st1 = shadow_buffer_height st
    \<and> tb_calls st1 = tb_calls st @ [Tb_change_cell x y c f b]
    \<and> sock_writes st1 = sock_writes st @ [(''OK'', write_ok env)]"
proof -
  have ax: "atoi (show_int x) = x" and ay: "atoi (show_int y) = y"
    using x y by (simp_all add: atoi_show_int)
  show ?thesis
    using buf x y
    by (simp add: change_cell_branch_def ax ay u16_round_trip u32_round_trip
        shadow_buffer_store_def tb_change_cell_def reply_checked_def write_socket_line_def c_str_OK)
qed

lemma get_cell_branch_in_bounds:
  assumes buf: "shadow_buffer st = Some cells"
    and x: "0 \<le> x" "x < shadow_buffer_width st" "x < 2 ^ 31"
    and y: "0 \<le> y" "y < shadow_buffer_height st" "y < 2 ^ 31"
    and cell: "cells ! nat (y * shadow_buffer_width st + x) = \<lparr>ch = c, fg = f, bg = b\<rparr>"
  shows "\<exists>r st2.
      get_cell_branch tb env st [''get_cell'', show_int x, show_int y] = (r, st2)
    \<and> r = (if write_ok env then 0 else 1)
    \<and> sock_writes st2 = sock_writes st @
         [(''OK_CELL '' @ show_int x @ '' '' @ show_int y @ '' '' @ cell_text tb c @ '' '' @
           show_nat (unat f) @ '' '' @ show_nat (unat b), write_ok env)]"
proof -
  let ?resp = "''OK_CELL '' @ show_int x @ '' '' @ show_int y @ '' '' @ cell_text tb c @ '' '' @
           show_nat (unat f) @ '' '' @ show_nat (unat b)"
  have ax: "atoi (show_int x) = x" and ay: "atoi (show_int y) = y"
    using x y by (simp_all add: atoi_show_int)
  have "length ?resp \<le> 255"
    using length_show_int_coord [of x] length_show_int_coord [of y] length_cell_text [of tb c]
      length_show_u16 [of f] length_show_u16 [of b] x y
    by simp
  then have tk: "take 255 ?resp = ?resp"
    by simp
  have "CHR 0x00 \<notin> set ?resp"
    by (simp add: no_nul_show_int no_nul_show_nat no_nul_cell_text)
  then have cs: "c_str ?resp = ?resp"
    by (rule c_str_id)
  have ne: "?resp \<noteq> []"
    by simp
  have "get_cell_branch tb env st [''get_cell'', show_int x, show_int y]
        = reply_checked env st ?resp ''Error writing OK_CELL response for get_cell''"
    using buf x y cell tk unfolding get_cell_branch_def by (simp add: ax ay)
  then show ?thesis
    using cs ne by (simp add: reply_checked_def write_socket_line_def)
qed

lemma show_nat_examples:
  "show_nat 0 = ''0''" "show_nat (Suc 0) = ''1''" "show_nat 1 = ''1''" "show_nat 2 = ''2''" "show_nat 7 = ''7''" "show_nat 955 = ''955''"
  by (simp_all add: show_nat.simps char_of_eq_iff)

section \<open>The shadow buffer\<close>

lemma length_fold_update: "length (fold (\<lambda>x b. b[f x := d]) xs buf) = length buf"
  by (induction xs arbitrary: buf) simp_all

lemma nth_fold_update:
  "i < length buf \<Longrightarrow>
   fold (\<lambda>x b. b[f x := d]) xs buf ! i = (if i \<in> f ` set xs then d else buf ! i)"
proof (induction xs arbitrary: buf)
  case Nil
  then show ?case by simp
next
  case (Cons x xs)
  then show ?case
    by (auto simp: nth_list_update)
qed

lemma length_fill_rows:
  "length (fold (\<lambda>y b. fold (\<lambda>x b'. b'[g y x := d]) xs b) ys buf) = length buf"
  by (induction ys arbitrary: buf) (simp_all add: length_fold_update)

lemma nth_fill_rows:
  "i < length buf \<Longrightarrow>
   fold (\<lambda>y b. fold (\<lambda>x b'. b'[g y x := d]) xs b) ys buf ! i =
     (if \<exists>y \<in> set ys. i \<in> g y ` set xs then d else buf ! i)"
proof (induction ys arbitrary: buf)
  case Nil
  then show ?case by simp
next
  case (Cons y ys)
  have len: "i < length (fold (\<lambda>x b'. b'[g y x := d]) xs buf)"
    using Cons.prems by (simp add: length_fold_update)
  show ?case
    using Cons.IH [OF len] Cons.prems
    by (auto simp: nth_fold_update)
qed

lemma fill_cells_all:
  assumes "length buf = width * height"
  shows "fill_cells d width height buf = replicate (width * height) d"
proof (rule nth_equalityI)
  show "length (fill_cells d width height buf) = length (replicate (width * height) d)"
    using assms by (simp add: fill_cells_def length_fill_rows)
next
  fix i
  assume "i < length (fill_cells d width height buf)"
  then have i: "i < width * height"
    using assms by (simp add: fill_cells_def length_fill_rows)
  then have w: "0 < width"
    by (cases width) auto
  have "i div width < height"
    using i w by (simp add: less_mult_imp_div_less mult.commute)
  moreover have "i mod width < width"
    using w by simp
  moreover have "i = i div width * width + i mod width"
    by simp
  ultimately have "\<exists>y \<in> set [0..<height]. i \<in> (\<lambda>x. y * width + x) ` set [0..<width]"
    by (intro bexI [of _ "i div width"] image_eqI [of _ _ "i mod width"]) simp_all
  then show "fill_cells d width height buf ! i = replicate (width * height) d ! i"
    using i assms unfolding fill_cells_def by (subst nth_fill_rows) simp_all
qed

lemma update_shadow_buffer_size_eq:
  assumes fits: "width \<le> 0 \<or> height \<le> 0 \<or> nat width * nat height * sizeof_tb_cell < 2 ^ 64"
  shows "update_shadow_buffer_size tb malloc st width height =
     Some (if width \<le> 0 \<or> height \<le> 0
           then st\<lparr>shadow_buffer := None, shadow_buffer_width := 0, shadow_buffer_height := 0\<rparr>
           else
             (case malloc (nat width * nat height * sizeof_tb_cell) of
                None \<Rightarrow>
                  st\<lparr>shadow_buffer := None, shadow_buffer_width := 0, shadow_buffer_height := 0,
                     stderr_out := stderr_out st @
                       [alloc_failure_log (nat width * nat height * sizeof_tb_cell)]\<rparr>
              | Some fresh \<Rightarrow>
                  st\<lparr>shadow_buffer := Some (replicate (nat width * nat height) (default_cell tb)),
                     shadow_buffer_width := width, shadow_buffer_height := height\<rparr>))"
proof (cases "width \<le> 0 \<or> height \<le> 0")
  case True
  then show ?thesis
    by (simp add: update_shadow_buffer_size_def)
next
  case False
  with fits have small: "nat width * nat height * sizeof_tb_cell < 2 ^ 64"
    by simp
  then have md: "(nat width * nat height * sizeof_tb_cell) mod 2 ^ 64
      = nat width * nat height * sizeof_tb_cell"
    by simp
  have fill: "fill_cells d (nat width) (nat height) (map fresh [0..<nat width * nat height])
      = replicate (nat width * nat height) d" for d fresh
    by (rule fill_cells_all) simp
  show ?thesis
    unfolding update_shadow_buffer_size_def Let_def md fill
    using False small by (simp split: option.splits)
qed

section \<open>The serving loop\<close>

declare process_lines.simps [simp del]

lemma strchr_nl_line:
  "text_line l \<Longrightarrow> strchr_nl (l @ CHR 0x0A # rest) = Some (length l)"
  by (induction l) (auto simp: text_line_def)

lemma strchr_nl_none: "CHR 0x0A \<notin> set p \<Longrightarrow> strchr_nl p = None"
  by (induction p) auto

lemma wire_Cons: "wire (l # ls) = l @ CHR 0x0A # wire ls"
  by (simp add: wire_def)

lemma wire_Nil: "wire [] = []"
  by (simp add: wire_def)

lemma process_lines_step:
  assumes "text_line l"
  shows "process_lines tb envs k (lv\<lparr>socket_buffer := l @ CHR 0x0A # rest\<rparr>) =
    (case handle_client_command tb (envs k) (sess lv) l of
       None \<Rightarrow> None
     | Some (r, st') \<Rightarrow>
         if r = 1
         then Some (lv\<lparr>sess := st', socket_buffer := l @ CHR 0x0A # rest,
                      keep_running := False, loop_exit_status := 0\<rparr>)
         else if r < 0
         then Some (lv\<lparr>sess := st', socket_buffer := l @ CHR 0x0A # rest,
                      keep_running := False, loop_exit_status := 1\<rparr>)
         else process_lines tb envs (Suc k) (lv\<lparr>sess := st', socket_buffer := rest\<rparr>))"
  by (subst process_lines.simps)
     (simp add: strchr_nl_line [OF assms] split: option.splits prod.splits)

lemma process_lines_done:
  "CHR 0x0A \<notin> set p \<Longrightarrow> process_lines tb envs k (lv\<lparr>socket_buffer := p\<rparr>) = Some (lv\<lparr>socket_buffer := p\<rparr>)"
  by (subst process_lines.simps) (simp add: strchr_nl_none)

lemma process_lines_wire:
  assumes "list_all text_line ls" and "CHR 0x0A \<notin> set partial"
  shows "\<exists>b. process_lines tb envs k (lv\<lparr>socket_buffer := wire ls @ partial\<rparr>) =
    (case dispatch_lines tb envs k (sess lv) ls of
       None \<Rightarrow> None
     | Some (st', None) \<Rightarrow> Some (lv\<lparr>sess := st', socket_buffer := partial\<rparr>)
     | Some (st', Some status) \<Rightarrow>
         Some (lv\<lparr>sess := st', socket_buffer := b, keep_running := False,
                 loop_exit_status := status\<rparr>))"
  using assms(1)
proof (induction ls arbitrary: k lv)
  case Nil
  show ?case
    using assms(2) by (simp add: wire_Nil process_lines_done)
next
  case (Cons l ls)
  then have l: "text_line l" and ls: "list_all text_line ls"
    by simp_all
  show ?case
  proof (cases "handle_client_command tb (envs k) (sess lv) l")
    case None
    then show ?thesis
      by (simp add: wire_Cons process_lines_step [OF l])
  next
    case (Some res)
    obtain r st' where res: "res = (r, st')"
      by (cases res)
    show ?thesis
    proof (cases "r = 1 \<or> r < 0")
      case True
      with Some res show ?thesis
        by (auto simp: wire_Cons process_lines_step [OF l])
    next
      case False
      with Some res Cons.IH [OF ls, of "Suc k" "lv\<lparr>sess := st'\<rparr>"] show ?thesis
        by (auto simp: wire_Cons process_lines_step [OF l] split: option.splits)
    qed
  qed
qed

lemma main_serving:
  assumes "socket_ret env \<noteq> - 1" "bind_ret env \<noteq> - 1" "listen_ret env \<noteq> - 1"
    and "accept_ret env \<noteq> - 1" "fcntl_getfl_ret env \<noteq> - 1" "fcntl_setfl_ret env \<noteq> - 1"
  shows "main tb env = map_option finished (serve tb (serving env) (iterations env))"
  using assms
  by (simp add: main_def run_main_loop_def Let_def sys_def log_stderr_def serving_def
      socket_path_def finished_def initial_session_def split: option.splits)

lemma serve_stopped: "\<not> keep_running lv \<Longrightarrow> serve tb lv es = Some lv"
  by (cases es) simp_all

lemma serve_iterate:
  "serve tb lv es =
     (case iterate tb lv es of
        None \<Rightarrow> None
      | Some lv' \<Rightarrow> if keep_running lv' then None else Some lv')"
  by (induction es arbitrary: lv) (auto split: option.splits)

lemma iterate_append:
  "iterate tb lv (es1 @ es2) =
     (case iterate tb lv es1 of None \<Rightarrow> None | Some lv' \<Rightarrow> iterate tb lv' es2)"
proof (induction es1 arbitrary: lv)
  case Nil
  show ?case by simp
next
  case (Cons e es1)
  have stopped: "\<not> keep_running l \<Longrightarrow> iterate tb l es = Some l" for l es
    by (cases es) simp_all
  show ?case
    using Cons.IH by (auto simp: stopped split: option.splits)
qed

lemma serve_append:
  "iterate tb lv es1 = Some lv' \<Longrightarrow> serve tb lv (es1 @ es2) = serve tb lv' es2"
  by (simp add: serve_iterate iterate_append)

section \<open>Failed writes\<close>

declare print_loop.simps [simp del]

lemma sock_writes_store [simp]:
  "sock_writes (shadow_buffer_store st x y c) = sock_writes st"
  by (simp add: shadow_buffer_store_def split: option.splits)

lemma sock_writes_change [simp]:
  "sock_writes (tb_change_cell st x y c f b) = sock_writes st"
  by (simp add: tb_change_cell_def)

lemma print_loop_steps:
  assumes run: "print_loop tb st text_ptr x y f b = Some st'"
    and base: "\<And>s. P s s"
    and step: "\<And>s cx cy cp cf cb s'.
      P (shadow_buffer_store (tb_change_cell s cx cy cp cf cb) cx cy \<lparr>ch = cp, fg = cf, bg = cb\<rparr>) s'
      \<Longrightarrow> P s s'"
  shows "P st st'"
  using run
proof (induction tb st text_ptr x y f b rule: print_loop.induct)
  case (1 tb st text_ptr current_x y f b)
  show ?case
  proof (cases "text_ptr = []")
    case True
    with "1.prems" show ?thesis
      by (subst (asm) print_loop.simps) (simp add: base)
  next
    case False
    obtain n cp where dec: "tb_utf8_char_to_unicode tb text_ptr = (n, cp)"
      by (cases "tb_utf8_char_to_unicode tb text_ptr")
    show ?thesis
    proof (cases "cp = 0 \<or> n \<le> 0 \<or> current_x \<ge> 2147483647")
      case True
      with "1.prems" False dec show ?thesis
        by (subst (asm) print_loop.simps) (auto split: if_splits simp: base)
    next
      case stepping: False
      with "1.prems" False dec have
        "print_loop tb (shadow_buffer_store (tb_change_cell st current_x y cp f b) current_x y
             \<lparr>ch = cp, fg = f, bg = b\<rparr>) (drop (nat n) text_ptr) (current_x + 1) y f b = Some st'"
        by (subst (asm) print_loop.simps) simp
      from "1.IH" [OF False dec [symmetric] _ _ _ this] stepping
      have "P (shadow_buffer_store (tb_change_cell st current_x y cp f b) current_x y
             \<lparr>ch = cp, fg = f, bg = b\<rparr>) st'"
        by simp
      then show ?thesis
        by (rule step)
    qed
  qed
qed

lemma print_loop_sock_writes:
  "print_loop tb st text_ptr x y f b = Some st' \<Longrightarrow> sock_writes st' = sock_writes st"
  by (erule print_loop_steps [where P = "\<lambda>s s'. sock_writes s' = sock_writes s"]) simp_all

lemma reply_checked_fail:
  assumes "\<not> write_ok env" and "take 2 (c_str resp) = ''OK''"
  shows "ok_failed st (fst (reply_checked env st resp msg)) (snd (reply_checked env st resp msg))"
proof -
  from assms(2) have "c_str resp \<noteq> []"
    by auto
  with assms show ?thesis
    by (simp add: reply_checked_def write_socket_line_def ok_failed_def)
qed

lemma reply_unchecked_fail:
  assumes "\<not> write_ok env" and "take 2 (c_str resp) \<noteq> ''OK''"
  shows "ok_failed st (fst (reply_unchecked env st resp)) (snd (reply_unchecked env st resp))"
  using assms by (auto simp: reply_unchecked_def write_socket_line_def ok_failed_def)

lemma ok_failed_frame:
  "sock_writes st1 = sock_writes st \<Longrightarrow> ok_failed st1 r st' \<Longrightarrow> ok_failed st r st'"
  by (auto simp: ok_failed_def)


lemma take2_OK_CELL: "take 2 (c_str (take 255 (''OK_CELL '' @ s))) = ''OK''"
  by (simp add: c_str_def)

lemma take2_OK_WIDTH: "take 2 (c_str (take 31 (''OK_WIDTH '' @ s))) = ''OK''"
  by (simp add: c_str_def)

lemma take2_OK_HEIGHT: "take 2 (c_str (take 31 (''OK_HEIGHT '' @ s))) = ''OK''"
  by (simp add: c_str_def)

lemma take2_EVENT: "take 2 (c_str (format_event ev)) \<noteq> ''OK''"
  by (simp add: format_event_def c_str_def MAX_EVENT_STR_SIZE_def)

lemma branch_failures:
  assumes "\<not> write_ok env"
  shows "ok_failed st (fst (present_branch env st args)) (snd (present_branch env st args))"
    and "ok_failed st (fst (clear_branch tb env st args)) (snd (clear_branch tb env st args))"
    and "ok_failed st (fst (change_cell_branch env st args)) (snd (change_cell_branch env st args))"
    and "ok_failed st (fst (get_cell_branch tb env st args)) (snd (get_cell_branch tb env st args))"
    and "ok_failed st (fst (width_branch env st args)) (snd (width_branch env st args))"
    and "ok_failed st (fst (height_branch env st args)) (snd (height_branch env st args))"
    and "ok_failed st (fst (set_cursor_branch env st args)) (snd (set_cursor_branch env st args))"
    and "ok_failed st (fst (set_input_mode_branch env st args))
           (snd (set_input_mode_branch env st args))"
    and "ok_failed st (fst (set_output_mode_branch env st args))
           (snd (set_output_mode_branch env st args))"
    and "ok_failed st (fst (set_clear_attributes_branch env st args))
           (snd (set_clear_attributes_branch env st args))"
proof -
  note rc = reply_checked_fail [OF assms] and ru = reply_unchecked_fail [OF assms]
  show "ok_failed st (fst (present_branch env st args)) (snd (present_branch env st args))"
    unfolding present_branch_def
    by (auto simp: c_str_def intro!: rc ru ok_failed_frame [OF _ rc])
  show "ok_failed st (fst (clear_branch tb env st args)) (snd (clear_branch tb env st args))"
    unfolding clear_branch_def Let_def
    by (auto simp: c_str_def split: option.splits intro!: rc ru ok_failed_frame [OF _ rc])
  show "ok_failed st (fst (change_cell_branch env st args)) (snd (change_cell_branch env st args))"
    unfolding change_cell_branch_def Let_def
    by (auto simp: c_str_def intro!: rc ru ok_failed_frame [OF _ rc])
  show "ok_failed st (fst (get_cell_branch tb env st args)) (snd (get_cell_branch tb env st args))"
    unfolding get_cell_branch_def Let_def
    by (auto simp: c_str_def take2_OK_CELL split: option.splits intro!: rc ru)
  show "ok_failed st (fst (width_branch env st args)) (snd (width_branch env st args))"
    unfolding width_branch_def
    by (auto simp: c_str_def take2_OK_WIDTH intro!: rc ru ok_failed_frame [OF _ rc])
  show "ok_failed st (fst (height_branch env st args)) (snd (height_branch env st args))"
    unfolding height_branch_def
    by (auto simp: c_str_def take2_OK_HEIGHT intro!: rc ru ok_failed_frame [OF _ rc])
  show "ok_failed st (fst (set_cursor_branch env st args)) (snd (set_cursor_branch env st args))"
    unfolding set_cursor_branch_def
    by (auto simp: c_str_def intro!: rc ru ok_failed_frame [OF _ rc])
  show "ok_failed st (fst (set_input_mode_branch env st args))
           (snd (set_input_mode_branch env st args))"
    unfolding set_input_mode_branch_def Let_def
    by (auto simp: c_str_def intro!: rc ru ok_failed_frame [OF _ rc] ok_failed_frame [OF _ ru])
  show "ok_failed st (fst (set_output_mode_branch env st args))
           (snd (set_output_mode_branch env st args))"
    unfolding set_output_mode_branch_def Let_def
    by (auto simp: c_str_def intro!: rc ru ok_failed_frame [OF _ rc] ok_failed_frame [OF _ ru])
  show "ok_failed st (fst (set_clear_attributes_branch env st args))
           (snd (set_clear_attributes_branch env st args))"
    unfolding set_clear_attributes_branch_def
    by (auto simp: c_str_def intro!: rc ru ok_failed_frame [OF _ rc])
qed


lemma debug_send_event_failure:
  assumes "\<not> write_ok env"
  shows "ok_failed st (fst (debug_send_event_branch env st args))
           (snd (debug_send_event_branch env st args))"
proof (cases "length args = 9")
  case True
  have "c_str (format_event ev) \<noteq> []" for ev
    by (simp add: format_event_def c_str_def MAX_EVENT_STR_SIZE_def)
  with True assms take2_EVENT show ?thesis
    by (simp add: debug_send_event_branch_def send_event_to_client_def write_socket_line_def
        ok_failed_def)
next
  case False
  with reply_unchecked_fail [OF assms, of "''ERROR invalid_args_debug_send_event''" st]
  show ?thesis
    by (simp add: debug_send_event_branch_def c_str_def)
qed

lemma print_failure:
  assumes "\<not> write_ok env" and "print_branch tb env st args = Some (r, st')"
  shows "ok_failed st r st'"
proof (cases "6 \<le> length args")
  case False
  with assms(2) reply_unchecked_fail [OF assms(1), of "''ERROR invalid_args_print''" st]
  show ?thesis
    by (auto simp: print_branch_def c_str_def)
next
  case True
  show ?thesis
  proof (cases "join_text [] True (drop 5 args)")
    case None
    with True assms(2) reply_unchecked_fail [OF assms(1), of "''ERROR text_too_long_print''" st]
    show ?thesis
      by (auto simp: print_branch_def c_str_def)
  next
    case (Some text_buffer)
    with True assms(2) obtain st1 where
      loop: "print_loop tb st text_buffer (atoi (args ! 1)) (atoi (args ! 2))
               (word_of_int (atoi (args ! 3))) (word_of_int (atoi (args ! 4))) = Some st1"
      and res: "reply_checked env st1 ''OK'' ''Error writing OK response for print'' = (r, st')"
      by (auto simp: print_branch_def Let_def split: option.splits)
    have "ok_failed st1 r st'"
      using reply_checked_fail [OF assms(1), of "''OK''" st1 "''Error writing OK response for print''"]
        res
      by (simp add: c_str_def)
    with print_loop_sock_writes [OF loop] show ?thesis
      by (rule ok_failed_frame)
  qed
qed

lemma handle_write_failure:
  assumes nw: "\<not> write_ok env"
    and run: "handle_client_command tb env st line = Some (r, st')"
  shows "ok_failed st r st'"
proof -
  let ?args = "collect_args MAX_ARGS (c_str (strip_eol line))"
  have pair: "f = (r, st') \<Longrightarrow> ok_failed st (fst f) (snd f) \<Longrightarrow> ok_failed st r st'" for f
    by simp
  have shut: "ok_failed st 1 (snd (write_socket_line (write_ok env) st ''OK''))"
    using nw by (simp add: write_socket_line_def c_str_def ok_failed_def)
  have unknown: "ok_failed st (fst (reply_unchecked env st ''ERROR unknown_command''))
      (snd (reply_unchecked env st ''ERROR unknown_command''))"
    using reply_unchecked_fail [OF nw, of "''ERROR unknown_command''" st] by (simp add: c_str_def)
  have empty: "ok_failed s 0 s" for s
    by (simp add: ok_failed_def)
  from run show ?thesis
    unfolding handle_client_command_def Let_def
    by (auto split: if_splits
        intro: empty shut print_failure [OF nw]
          pair [OF _ unknown] pair [OF _ debug_send_event_failure [OF nw]]
          pair [OF _ branch_failures(1) [OF nw]] pair [OF _ branch_failures(2) [OF nw]]
          pair [OF _ branch_failures(3) [OF nw]] pair [OF _ branch_failures(4) [OF nw]]
          pair [OF _ branch_failures(5) [OF nw]] pair [OF _ branch_failures(6) [OF nw]]
          pair [OF _ branch_failures(7) [OF nw]] pair [OF _ branch_failures(8) [OF nw]]
          pair [OF _ branch_failures(9) [OF nw]] pair [OF _ branch_failures(10) [OF nw]])
qed

section \<open>The claims\<close>

subsection \<open>Round trip of a cell\<close>

lemma of_char_char_of_small: "n < 256 \<Longrightarrow> (of_char (char_of (n::nat)) :: nat) = n"
  by simp

lemma char_of_not_nul:
  assumes "0 < n" "n < 256"
  shows "char_of (n::nat) \<noteq> CHR 0x00"
proof
  assume "char_of n = CHR 0x00"
  then have "(of_char (char_of n) :: nat) = of_char (CHR 0x00)"
    by simp
  with assms show False
    by simp
qed

lemma utf8_lead2: "k < 32 \<Longrightarrow> (192 + k) mod 32 = (k::nat)"
proof -
  assume k: "k < 32"
  have "(192 + k) mod 32 = (k + 32 * 6) mod 32"
    by (simp add: add.commute)
  also have "\<dots> = k mod 32"
    by (simp only: mod_mult_self2)
  finally show ?thesis
    using k by simp
qed

lemma utf8_lead3: "k < 16 \<Longrightarrow> (224 + k) mod 16 = (k::nat)"
proof -
  assume k: "k < 16"
  have "(224 + k) mod 16 = (k + 16 * 14) mod 16"
    by (simp add: add.commute)
  also have "\<dots> = k mod 16"
    by (simp only: mod_mult_self2)
  finally show ?thesis
    using k by simp
qed

lemma utf8_lead4: "k < 8 \<Longrightarrow> (240 + k) mod 8 = (k::nat)"
proof -
  assume k: "k < 8"
  have "(240 + k) mod 8 = (k + 8 * 30) mod 8"
    by (simp add: add.commute)
  also have "\<dots> = k mod 8"
    by (simp only: mod_mult_self2)
  finally show ?thesis
    using k by simp
qed

lemma utf8_cont: "(128 + m mod 64) mod 64 = (m::nat) mod 64"
proof -
  have "(128 + m mod 64) mod 64 = (m mod 64 + 64 * 2) mod 64"
    by (simp add: add.commute)
  also have "\<dots> = m mod 64 mod 64"
    by (simp only: mod_mult_self2)
  finally show ?thesis
    by simp
qed

lemma utf8_join2: "(n::nat) div 64 * 64 + n mod 64 = n"
  by simp

lemma utf8_join3: "((n::nat) div 4096 * 64 + n div 64 mod 64) * 64 + n mod 64 = n"
proof -
  have "n div 4096 = n div 64 div 64"
    by (simp add: div_mult2_eq [symmetric])
  then show ?thesis
    by simp
qed

lemma utf8_join4: "(((n::nat) div 262144 * 64 + n div 4096 mod 64) * 64 + n div 64 mod 64) * 64 + n mod 64 = n"
proof -
  have "n div 262144 = n div 64 div 64 div 64" "n div 4096 = n div 64 div 64"
    by (simp_all add: div_mult2_eq [symmetric])
  then show ?thesis
    by simp
qed

lemma utf8_round_trips:
  fixes c :: u32
  assumes "0 < c" "c < 0x200000"
  shows "round_trips utf8_termbox c"
proof -
  let ?n = "unat c"
  have pos: "0 < ?n"
    using assms(1) by (simp add: word_greater_zero_iff unat_gt_0)
  have lt: "?n < 0x200000"
    using assms(2) by (simp add: word_less_nat_alt)
  have again: "word_of_nat ?n = c"
    by simp
  consider (a) "?n < 0x80" | (b) "0x80 \<le> ?n" "?n < 0x800" | (c) "0x800 \<le> ?n" "?n < 0x10000"
    | (d) "0x10000 \<le> ?n" "?n < 0x200000"
    using lt by linarith
  then show ?thesis
  proof cases
    case a
    then have nz: "char_of ?n \<noteq> CHR 0x00"
      using pos by (intro char_of_not_nul) simp_all
    show ?thesis
      using a pos nz
      by (simp add: round_trips_def utf8_termbox_def utf8_encode_def utf8_decode_def Let_def
          c_str_def utf8_len_def)
  next
    case b
    let ?b0 = "192 + ?n div 64" and ?b1 = "128 + ?n mod 64"
    have r: "?n div 64 < 32"
      using b by simp
    have small: "?b0 mod 256 = ?b0" "?b1 mod 256 = ?b1"
      using r by simp_all
    have nz: "char_of ?b0 \<noteq> CHR 0x00" "char_of ?b1 \<noteq> CHR 0x00"
      using r by (simp_all add: char_of_not_nul)
    have enc: "utf8_encode c = (2, [char_of ?b0, char_of ?b1])"
      using b by (simp add: utf8_encode_def Let_def)
    have cs: "c_str [char_of ?b0, char_of ?b1] = [char_of ?b0, char_of ?b1]"
      using nz by (simp add: c_str_def)
    have len: "utf8_len ?b0 = 2"
      using r by (simp add: utf8_len_def)
    have val: "(?b0 mod 32) * 64 + ?b1 mod 64 = ?n"
      by (simp only: utf8_lead2 [OF r] utf8_cont utf8_join2)
    have dec0: "utf8_decode [char_of ?b0, char_of ?b1] = (2, word_of_nat ((?b0 mod 32) * 64 + ?b1 mod 64))"
      by (simp add: utf8_decode_def Let_def small len)
    have dec: "utf8_decode [char_of ?b0, char_of ?b1] = (2, c)"
      unfolding dec0 val by simp
    show ?thesis
      by (simp add: round_trips_def utf8_termbox_def enc cs dec)
  next
    case c
    let ?b0 = "224 + ?n div 4096" and ?b1 = "128 + (?n div 64) mod 64" and ?b2 = "128 + ?n mod 64"
    have r: "?n div 4096 < 16"
      using c by simp
    have small: "?b0 mod 256 = ?b0" "?b1 mod 256 = ?b1" "?b2 mod 256 = ?b2"
      using r by simp_all
    have nz: "char_of ?b0 \<noteq> CHR 0x00" "char_of ?b1 \<noteq> CHR 0x00" "char_of ?b2 \<noteq> CHR 0x00"
      using r by (simp_all add: char_of_not_nul)
    have enc: "utf8_encode c = (3, [char_of ?b0, char_of ?b1, char_of ?b2])"
      using c by (simp add: utf8_encode_def Let_def)
    have cs: "c_str [char_of ?b0, char_of ?b1, char_of ?b2]
        = [char_of ?b0, char_of ?b1, char_of ?b2]"
      using nz by (simp add: c_str_def)
    have len: "utf8_len ?b0 = 3"
      using r by (simp add: utf8_len_def)
    have val: "((?b0 mod 16) * 64 + ?b1 mod 64) * 64 + ?b2 mod 64 = ?n"
      by (simp only: utf8_lead3 [OF r] utf8_cont mod_mod_trivial utf8_join3)
    have dec0: "utf8_decode [char_of ?b0, char_of ?b1, char_of ?b2] = (3, word_of_nat (((?b0 mod 16) * 64 + ?b1 mod 64) * 64 + ?b2 mod 64))"
      by (simp add: utf8_decode_def Let_def small len)
    have dec: "utf8_decode [char_of ?b0, char_of ?b1, char_of ?b2] = (3, c)"
      unfolding dec0 val by simp
    show ?thesis
      by (simp add: round_trips_def utf8_termbox_def enc cs dec)
  next
    case d
    let ?b0 = "240 + ?n div 262144" and ?b1 = "128 + (?n div 4096) mod 64"
      and ?b2 = "128 + (?n div 64) mod 64" and ?b3 = "128 + ?n mod 64"
    have r: "?n div 262144 < 8"
      using d by simp
    have small: "?b0 mod 256 = ?b0" "?b1 mod 256 = ?b1" "?b2 mod 256 = ?b2" "?b3 mod 256 = ?b3"
      using r by simp_all
    have nz: "char_of ?b0 \<noteq> CHR 0x00" "char_of ?b1 \<noteq> CHR 0x00" "char_of ?b2 \<noteq> CHR 0x00"
        "char_of ?b3 \<noteq> CHR 0x00"
      using r by (simp_all add: char_of_not_nul)
    have enc: "utf8_encode c = (4, [char_of ?b0, char_of ?b1, char_of ?b2, char_of ?b3])"
      using d by (simp add: utf8_encode_def Let_def)
    have cs: "c_str [char_of ?b0, char_of ?b1, char_of ?b2, char_of ?b3]
        = [char_of ?b0, char_of ?b1, char_of ?b2, char_of ?b3]"
      using nz by (simp add: c_str_def)
    have len: "utf8_len ?b0 = 4"
      using r by (simp add: utf8_len_def)
    have val: "(((?b0 mod 8) * 64 + ?b1 mod 64) * 64 + ?b2 mod 64) * 64 + ?b3 mod 64 = ?n"
      by (simp only: utf8_lead4 [OF r] utf8_cont mod_mod_trivial utf8_join4)
    have dec0: "utf8_decode [char_of ?b0, char_of ?b1, char_of ?b2, char_of ?b3] = (4, word_of_nat ((((?b0 mod 8) * 64 + ?b1 mod 64) * 64 + ?b2 mod 64) * 64 + ?b3 mod 64))"
      by (simp add: utf8_decode_def Let_def small len)
    have dec: "utf8_decode [char_of ?b0, char_of ?b1, char_of ?b2, char_of ?b3] = (4, c)"
      unfolding dec0 val by simp
    show ?thesis
      by (simp add: round_trips_def utf8_termbox_def enc cs dec)
  qed
qed

lemma change_cell_result:
  "fst (change_cell_branch env st [v, a1, a2, a3, a4, a5]) = (if write_ok env then 0 else 1)"
  by (simp add: change_cell_branch_def Let_def reply_checked_def write_socket_line_def c_str_OK)

lemma change_cell_then_get_cell:
  fixes c :: u32 and f b :: u16
  assumes buf: "shadow_buffer st = Some cells"
    and len: "length cells = nat (shadow_buffer_width st) * nat (shadow_buffer_height st)"
    and cint: "shadow_buffer_width st < 2 ^ 31" "shadow_buffer_height st < 2 ^ 31"
    and x: "0 \<le> x" "x < shadow_buffer_width st"
    and y: "0 \<le> y" "y < shadow_buffer_height st"
  shows "\<exists>st1 st2.
      handle_client_command tb env1 st
        (command_line [''change_cell'', show_int x, show_int y,
                       show_nat (unat c), show_nat (unat f), show_nat (unat b)])
        = Some (if write_ok env1 then 0 else 1, st1)
    \<and> sock_writes st1 = sock_writes st @ [(''OK'', write_ok env1)]
    \<and> handle_client_command tb env2 st1 (command_line [''get_cell'', show_int x, show_int y])
        = Some (if write_ok env2 then 0 else 1, st2)
    \<and> sock_writes st2 = sock_writes st1 @
         [(''OK_CELL '' @ show_int x @ '' '' @ show_int y @ '' '' @ cell_text tb c @ '' '' @
           show_nat (unat f) @ '' '' @ show_nat (unat b), write_ok env2)]"
proof -
  have x31: "x < 2 ^ 31" and y31: "y < 2 ^ 31"
    using x y cint by simp_all
  let ?i = "nat (y * shadow_buffer_width st + x)"
  let ?args = "[''change_cell'', show_int x, show_int y, show_nat (unat c), show_nat (unat f),
      show_nat (unat b)]"
  obtain r1 st1 where
    cc: "change_cell_branch env1 st ?args = (r1, st1)"
    and buf1: "shadow_buffer st1 = Some (cells[?i := \<lparr>ch = c, fg = f, bg = b\<rparr>])"
    and w1: "shadow_buffer_width st1 = shadow_buffer_width st"
    and h1: "shadow_buffer_height st1 = shadow_buffer_height st"
    and s1: "sock_writes st1 = sock_writes st @ [(''OK'', write_ok env1)]"
    using change_cell_branch_in_bounds [OF buf x(1) x(2) x31 y(1) y(2) y31, of env1 c f b]
    by blast
  have "fst (change_cell_branch env1 st ?args) = (if write_ok env1 then 0 else 1)"
    by (rule change_cell_result)
  then have r1: "r1 = (if write_ok env1 then 0 else 1)"
    unfolding cc by simp
  have "?i < length cells"
    using cell_index_bound [OF x y] len by simp
  then have cell: "(cells[?i := \<lparr>ch = c, fg = f, bg = b\<rparr>]) ! nat (y * shadow_buffer_width st1 + x)
      = \<lparr>ch = c, fg = f, bg = b\<rparr>"
    by (simp add: w1)
  obtain r2 st2 where
    gc: "get_cell_branch tb env2 st1 [''get_cell'', show_int x, show_int y] = (r2, st2)"
    and r2: "r2 = (if write_ok env2 then 0 else 1)"
    and wr: "sock_writes st2 = sock_writes st1 @
         [(''OK_CELL '' @ show_int x @ '' '' @ show_int y @ '' '' @ cell_text tb c @ '' '' @
           show_nat (unat f) @ '' '' @ show_nat (unat b), write_ok env2)]"
    using get_cell_branch_in_bounds [OF buf1 x(1) _ x31 y(1) _ y31 cell, of tb env2] x y w1 h1
    by auto
  have h1': "handle_client_command tb env1 st (command_line ?args) = Some (r1, st1)"
    by (simp only: handle_change_cell [OF plain_show_int plain_show_int plain_show_nat plain_show_nat plain_show_nat] cc)
  have h2': "handle_client_command tb env2 st1 (command_line [''get_cell'', show_int x, show_int y])
        = Some (r2, st2)"
    by (simp only: handle_get_cell [OF plain_show_int plain_show_int] gc)
  show ?thesis
    using h1' h2' wr s1 r1 r2 by auto
qed

lemma round_trips_text:
  assumes "round_trips tb c"
  shows "cell_text tb c \<noteq> []"
    and "tb_utf8_char_to_unicode tb (cell_text tb c) = (int (length (cell_text tb c)), c)"
  using assms
  by (auto simp: round_trips_def cell_text_def split: prod.splits)

lemma cell_text_nul: "cell_text utf8_termbox 0 = []"
  by (simp add: cell_text_def utf8_termbox_def utf8_encode_def c_str_def char_of_eq_iff)

text \<open>
  Claim C1 (round trip).  Let the shadow buffer be allocated, with as many cells as its
  dimensions say, let \<open>(x, y)\<close> be inside it, and let \<open>c\<close> be a code point on which
  termbox's encoder and decoder agree.  Dispatching \<^verbatim>\<open>change_cell x y c fg bg\<close> and then
  \<^verbatim>\<open>get_cell x y\<close> makes the second command write the line \<^verbatim>\<open>OK_CELL x y <text> fg bg\<close>,
  where the text is the encoder's text for \<open>c\<close>, is not empty and is read back as \<open>c\<close> by
  the decoder, and the attributes are the ones written.  The numbers are in decimal, as
  \<^verbatim>\<open>%d\<close> and \<^verbatim>\<open>%u\<close> print them.  The result of \<^verbatim>\<open>get_cell\<close> is 0 when its write succeeds
  and 1 when it fails.  With UTF-8 sequences of one to four bytes the encoder and the
  decoder agree on every code point from 1 to \<open>0x1FFFFF\<close> (lemma \<open>utf8_round_trips\<close>).
\<close>

theorem change_cell_get_cell_round_trip:
  fixes c :: u32 and f b :: u16
  assumes buf: "shadow_buffer st = Some cells"
    and len: "length cells = nat (shadow_buffer_width st) * nat (shadow_buffer_height st)"
    and cint: "shadow_buffer_width st < 2 ^ 31" "shadow_buffer_height st < 2 ^ 31"
    and x: "0 \<le> x" "x < shadow_buffer_width st"
    and y: "0 \<le> y" "y < shadow_buffer_height st"
    and enc: "round_trips tb c"
  shows "\<exists>r1 st1 r2 st2 t.
      handle_client_command tb env1 st
        (command_line [''change_cell'', show_int x, show_int y,
                       show_nat (unat c), show_nat (unat f), show_nat (unat b)]) = Some (r1, st1)
    \<and> handle_client_command tb env2 st1 (command_line [''get_cell'', show_int x, show_int y])
        = Some (r2, st2)
    \<and> r2 = (if write_ok env2 then 0 else 1)
    \<and> sock_writes st2 = sock_writes st1 @
         [(''OK_CELL '' @ show_int x @ '' '' @ show_int y @ '' '' @ t @ '' '' @
           show_nat (unat f) @ '' '' @ show_nat (unat b), write_ok env2)]
    \<and> t = c_str (take 7 (snd (tb_utf8_unicode_to_char tb c)))
    \<and> t \<noteq> []
    \<and> tb_utf8_char_to_unicode tb t = (int (length t), c)"
proof -
  have ctext: "cell_text tb c = c_str (take 7 (snd (tb_utf8_unicode_to_char tb c)))"
    using enc by (cases "tb_utf8_unicode_to_char tb c") (simp add: cell_text_def round_trips_def)
  from change_cell_then_get_cell [OF buf len cint x y, of tb env1 c f b env2]
  obtain st1 st2 where
    1: "handle_client_command tb env1 st
        (command_line [''change_cell'', show_int x, show_int y,
                       show_nat (unat c), show_nat (unat f), show_nat (unat b)])
        = Some (if write_ok env1 then 0 else 1, st1)"
    and 2: "handle_client_command tb env2 st1 (command_line [''get_cell'', show_int x, show_int y])
        = Some (if write_ok env2 then 0 else 1, st2)"
    and 3: "sock_writes st2 = sock_writes st1 @
         [(''OK_CELL '' @ show_int x @ '' '' @ show_int y @ '' '' @ cell_text tb c @ '' '' @
           show_nat (unat f) @ '' '' @ show_nat (unat b), write_ok env2)]"
    by blast
  show ?thesis
    apply (rule exI [of _ "if write_ok env1 then 0 else 1"])
    apply (rule exI [of _ st1])
    apply (rule exI [of _ "if write_ok env2 then 0 else 1"])
    apply (rule exI [of _ st2])
    apply (rule exI [of _ "cell_text tb c"])
    apply (intro conjI)
          apply (rule 1)
         apply (rule 2)
        apply (rule refl)
       apply (rule 3)
      apply (rule ctext)
     apply (rule round_trips_text(1) [OF enc])
    apply (rule round_trips_text(2) [OF enc])
    done
qed

theorem change_cell_get_cell_round_trip_witness:
  "\<exists>r1 st1 r2 st2.
      handle_client_command utf8_termbox quiet_env small_session ''change_cell 1 1 955 7 2''
        = Some (r1, st1)
    \<and> handle_client_command utf8_termbox quiet_env st1 ''get_cell 1 1'' = Some (r2, st2)
    \<and> r2 = 0
    \<and> sock_writes st2 = sock_writes st1 @ [(''OK_CELL 1 1 '' @ [CHR 0xCE, CHR 0xBB] @ '' 7 2'', True)]
    \<and> tb_utf8_char_to_unicode utf8_termbox [CHR 0xCE, CHR 0xBB] = (2, 955)"
proof -
  have buf: "shadow_buffer small_session = Some (replicate 6 (default_cell utf8_termbox))"
    by (simp add: small_session_def)
  have enc: "round_trips utf8_termbox 955"
    by (rule utf8_round_trips) simp_all
  have t: "c_str (take 7 (snd (tb_utf8_unicode_to_char utf8_termbox 955))) = [CHR 0xCE, CHR 0xBB]"
    by (simp add: utf8_termbox_def utf8_encode_def c_str_def char_of_eq_iff)
  from change_cell_get_cell_round_trip [OF buf _ _ _ _ _ _ _ enc, of 1 1 quiet_env 7 2 quiet_env]
  show ?thesis
    unfolding t
    by (simp add: small_session_def show_int_def show_nat_examples quiet_env_def)
qed

text \<open>
  The code point 0 does not come back: its text in the 8-byte buffer is the empty string,
  and the line that answers \<^verbatim>\<open>get_cell\<close> has nothing between the coordinates and the
  attributes.
\<close>

theorem round_trip_counterexample:
  "map_option (sock_writes \<circ> fst)
     (dispatch_lines utf8_termbox (cmd_envs idle_iter) 0 small_session
        [''change_cell 1 1 0 7 2'', ''get_cell 1 1''])
     = Some [(''OK'', True), (''OK_CELL 1 1  7 2'', True)]"
proof -
  have buf: "shadow_buffer small_session = Some (replicate 6 (default_cell utf8_termbox))"
    by (simp add: small_session_def)
  from change_cell_then_get_cell [OF buf, of 1 1 utf8_termbox quiet_env 0 7 2 quiet_env]
  obtain st1 st2 where
    "handle_client_command utf8_termbox quiet_env small_session ''change_cell 1 1 0 7 2''
       = Some (0, st1)"
    "sock_writes st1 = [(''OK'', True)]"
    "handle_client_command utf8_termbox quiet_env st1 ''get_cell 1 1'' = Some (0, st2)"
    "sock_writes st2 = sock_writes st1 @ [(''OK_CELL 1 1  7 2'', True)]"
    by (auto simp: small_session_def initial_session_def show_int_def show_nat_examples
        quiet_env_def cell_text_nul)
  then show ?thesis
    by (simp add: idle_iter_def)
qed

lemma reply_unchecked_plain:
  "CHR 0x00 \<notin> set r \<Longrightarrow> r \<noteq> [] \<Longrightarrow>
   reply_unchecked env st r = (0, st\<lparr>sock_writes := sock_writes st @ [(r, write_ok env)]\<rparr>)"
  by (simp add: reply_unchecked_def write_socket_line_def c_str_id)

lemma lower_case_verbs:
  "map to_lower ''present'' = ''present''" "map to_lower ''clear'' = ''clear''"
  "map to_lower ''print'' = ''print''" "map to_lower ''change_cell'' = ''change_cell''"
  "map to_lower ''get_cell'' = ''get_cell''" "map to_lower ''width'' = ''width''"
  "map to_lower ''height'' = ''height''" "map to_lower ''set_cursor'' = ''set_cursor''"
  "map to_lower ''set_input_mode'' = ''set_input_mode''"
  "map to_lower ''set_output_mode'' = ''set_output_mode''"
  "map to_lower ''set_clear_attributes'' = ''set_clear_attributes''"
  "map to_lower ''DEBUG_SEND_EVENT'' = ''debug_send_event''"
  by (simp_all add: to_lower_def char_of_eq_iff)

lemmas branch_defs =
  present_branch_def clear_branch_def print_branch_def change_cell_branch_def
  get_cell_branch_def width_branch_def height_branch_def set_cursor_branch_def
  set_input_mode_branch_def set_output_mode_branch_def set_clear_attributes_branch_def
  debug_send_event_branch_def

lemma char_of_letters:
  "char_of (100::nat) = CHR ''d''" "char_of (101::nat) = CHR ''e''" "char_of (98::nat) = CHR ''b''"
  "char_of (117::nat) = CHR ''u''" "char_of (103::nat) = CHR ''g''" "char_of (115::nat) = CHR ''s''"
  "char_of (110::nat) = CHR ''n''" "char_of (118::nat) = CHR ''v''" "char_of (116::nat) = CHR ''t''"
  by (simp_all add: char_of_eq_iff)

lemma args_get_cell_1: "collect_args MAX_ARGS (c_str (strip_eol ''get_cell 1'')) = [''get_cell'', ''1'']"
  by (simp add: MAX_ARGS_def c_str_def strip_eol_def strtok_sp_def eval_nat_numeral)

lemma args_shutdown_now:
  "collect_args MAX_ARGS (c_str (strip_eol ''shutdown now'')) = [''shutdown'', ''now'']"
  by (simp add: MAX_ARGS_def c_str_def strip_eol_def strtok_sp_def eval_nat_numeral)

lemma args_debug_1:
  "collect_args MAX_ARGS (c_str (strip_eol ''DEBUG_SEND_EVENT 1'')) = [''DEBUG_SEND_EVENT'', ''1'']"
  by (simp add: MAX_ARGS_def c_str_def strip_eol_def strtok_sp_def eval_nat_numeral)

text \<open>
  Claim C4 (arity validation), as amended.  A line whose first token is one of the twelve
  verbs with an arity check (every recognised verb but \<^verbatim>\<open>shutdown\<close>) and whose number of
  tokens is not the one the verb asks for, is answered with exactly
  \<^verbatim>\<open>ERROR invalid_args_<verb in lower case>\<close>; the function returns 0 and the session is
  the one before with that line added to the socket writes: no termbox call is made and
  the shadow buffer, its dimensions and its pointer are as they were.  The result of the
  write is not looked at.
\<close>

theorem wrong_arity_is_rejected:
  assumes args: "collect_args MAX_ARGS (c_str (strip_eol line)) = verb # rest"
    and verb: "(verb, a) \<in> set checked_arities"
    and wrong: "\<not> arity_ok a (Suc (length rest))"
  shows "handle_client_command tb env st line =
           Some (0, st\<lparr>sock_writes := sock_writes st @
                          [(''ERROR invalid_args_'' @ map to_lower verb, write_ok env)]\<rparr>)"
  using verb wrong unfolding checked_arities_def
  apply (simp only: set_simps insert_iff empty_iff)
  apply (elim disjE)
  apply (simp_all add: handle_client_command_def args to_lower_def char_of_letters branch_defs reply_unchecked_plain)
  done

theorem wrong_arity_is_rejected_witness:
  "handle_client_command utf8_termbox quiet_env small_session ''get_cell 1'' =
     Some (0, small_session\<lparr>sock_writes := [(''ERROR invalid_args_get_cell'', True)]\<rparr>)"
  using wrong_arity_is_rejected [OF args_get_cell_1, of "Exactly 3" utf8_termbox quiet_env small_session]
  by (simp add: checked_arities_def to_lower_def small_session_def initial_session_def quiet_env_def)

text \<open>
  The claim as stated fails for two verbs: \<^verbatim>\<open>shutdown\<close> followed by anything is
  acknowledged with \<^verbatim>\<open>OK\<close> and stops the loop, and the error of \<^verbatim>\<open>DEBUG_SEND_EVENT\<close>
  spells the verb in lower case.
\<close>

theorem wrong_arity_counterexample:
  "handle_client_command utf8_termbox quiet_env small_session ''shutdown now''
     = Some (1, small_session\<lparr>sock_writes := [(''OK'', True)]\<rparr>)
   \<and> handle_client_command utf8_termbox quiet_env small_session ''shutdown now''
     \<noteq> Some (0, small_session\<lparr>sock_writes := [(''ERROR invalid_args_shutdown'', True)]\<rparr>)
   \<and> handle_client_command utf8_termbox quiet_env small_session ''DEBUG_SEND_EVENT 1''
     = Some (0, small_session\<lparr>sock_writes := [(''ERROR invalid_args_debug_send_event'', True)]\<rparr>)
   \<and> handle_client_command utf8_termbox quiet_env small_session ''DEBUG_SEND_EVENT 1''
     \<noteq> Some (0, small_session\<lparr>sock_writes := [(''ERROR invalid_args_DEBUG_SEND_EVENT'', True)]\<rparr>)"
  unfolding handle_client_command_def args_shutdown_now args_debug_1
  by (simp add: write_socket_line_def c_str_def quiet_env_def small_session_def initial_session_def
      debug_send_event_branch_def reply_unchecked_def)

section \<open>Running the model\<close>

lemmas run_defs =
  serve.simps loop_body_def event_step_def socket_step_def process_lines.simps
  send_event_to_client_def write_socket_line_def c_str_id Let_def
  idle_iter_def incoming_def pending_def incoming_broken_def pending_broken_def
  good_boot_def serving_def finished_def
  initial_session_def quiet_env_def broken_env_def utf8_termbox_def
  SOCKET_BUFFER_SIZE_def

lemmas cmd_defs =
  handle_client_command_def MAX_ARGS_def strip_eol_def strtok_sp_def
  reply_checked_def reply_unchecked_def

lemma good_boot_ok:
  "socket_ret (good_boot its) \<noteq> - 1" "bind_ret (good_boot its) \<noteq> - 1"
  "listen_ret (good_boot its) \<noteq> - 1" "accept_ret (good_boot its) \<noteq> - 1"
  "fcntl_getfl_ret (good_boot its) \<noteq> - 1" "fcntl_setfl_ret (good_boot its) \<noteq> - 1"
  "iterations (good_boot its) = its"
  by (simp_all add: good_boot_def)

lemma update_shadow_buffer_size_sock_writes:
  "update_shadow_buffer_size tb malloc st w h = Some st' \<Longrightarrow> sock_writes st' = sock_writes st"
  by (auto simp: update_shadow_buffer_size_def Let_def split: if_splits option.splits)

lemma format_event_plain:
  "c_str (format_event ev) = format_event ev \<and> format_event ev \<noteq> []"
proof -
  have "CHR 0x00 \<notin> set (format_event ev)"
    unfolding format_event_def
    by (rule notI, drule in_set_takeD) (simp add: no_nul_show_nat no_nul_show_int)
  moreover have "format_event ev \<noteq> []"
    by (simp add: format_event_def MAX_EVENT_STR_SIZE_def)
  ultimately show ?thesis
    by (simp add: c_str_id)
qed

lemma sock_writes_failed_event:
  "sock_writes (send_event_to_client False st ev) = sock_writes st @ [(format_event ev, False)]"
  using format_event_plain [of ev]
  by (simp add: send_event_to_client_def write_socket_line_def)

lemma event_step_failed_write:
  assumes "0 < peek_ret e" and "\<not> event_write_ok e" and "event_step tb e st = Some st0"
  shows "sock_writes st0 = sock_writes st @ [(format_event (peek_event e), False)]"
proof (cases "ev_type (peek_event e) = TB_EVENT_RESIZE tb")
  case True
  with assms obtain st1 where
    "update_shadow_buffer_size tb (malloc_ret e) (st\<lparr>tb_calls := tb_calls st @ [Tb_peek_event 10]\<rparr>)
       (ev_w (peek_event e)) (ev_h (peek_event e)) = Some st1"
    and "st0 = send_event_to_client False st1 (peek_event e)"
    by (auto simp: event_step_def Let_def split: option.splits)
  then show ?thesis
    using update_shadow_buffer_size_sock_writes [of tb "malloc_ret e" _ _ _ st1]
    by (simp add: sock_writes_failed_event)
next
  case False
  with assms show ?thesis
    by (auto simp: event_step_def Let_def sock_writes_failed_event)
qed

lemma args_present: "collect_args MAX_ARGS (c_str (strip_eol ''present'')) = [''present'']"
  by (simp add: MAX_ARGS_def c_str_def strip_eol_def strtok_sp_def eval_nat_numeral)

lemma present_refused:
  "handle_client_command utf8_termbox broken_env small_session ''present'' =
     Some (1, small_session\<lparr>tb_calls := [Tb_present], sock_writes := [(''OK'', False)],
                            stderr_out := [Perror ''Error writing OK response for present'']\<rparr>)"
  unfolding handle_client_command_def args_present
  by (simp add: present_branch_def reply_checked_def write_socket_line_def c_str_def
      broken_env_def quiet_env_def small_session_def initial_session_def)

text \<open>
  Claim C5 (write failures), as amended.  When the socket refuses the write of a command's
  answer, \<^verbatim>\<open>handle_client_command\<close> returns 1 exactly when the refused line was a success
  response (it starts with \<^verbatim>\<open>OK\<close>), and the inner loop then stops the serving loop without
  dispatching what follows; for every other refused line (an \<^verbatim>\<open>ERROR\<close> response, the event
  line of \<^verbatim>\<open>DEBUG_SEND_EVENT\<close>) it returns 0 and the inner loop goes on with the next line.
  When the socket refuses an event line, the iteration goes on as if it had been written:
  with no byte to read, the loop variables are what they were, the session apart.  Nothing
  is said here about the exit status after a refused success response.
\<close>

theorem write_failure_effects:
  assumes nw: "\<not> write_ok (envs k)"
    and run: "handle_client_command tb (envs k) (sess lv) line = Some (r, st')"
    and line: "text_line line"
  shows "ok_failed (sess lv) r st'
    \<and> (r = 1 \<longrightarrow>
         (\<exists>status. process_lines tb envs k (lv\<lparr>socket_buffer := line @ CHR 0x0A # later\<rparr>)
            = Some (lv\<lparr>sess := st', socket_buffer := line @ CHR 0x0A # later,
                      keep_running := False, loop_exit_status := status\<rparr>)))
    \<and> (r = 0 \<longrightarrow>
         process_lines tb envs k (lv\<lparr>socket_buffer := line @ CHR 0x0A # later\<rparr>)
           = process_lines tb envs (Suc k) (lv\<lparr>sess := st', socket_buffer := later\<rparr>))
    \<and> (0 < peek_ret e \<and> \<not> event_write_ok e \<and> select_ret e = 0
         \<and> event_step tb e (sess lv) = Some st0 \<longrightarrow>
         sock_writes st0 = sock_writes (sess lv) @ [(format_event (peek_event e), False)]
         \<and> loop_body tb e lv = Some (lv\<lparr>sess := st0\<rparr>))"
proof (intro conjI impI)
  show "ok_failed (sess lv) r st'"
    using nw run by (rule handle_write_failure)
next
  assume "r = 1"
  with run show
    "\<exists>status. process_lines tb envs k (lv\<lparr>socket_buffer := line @ CHR 0x0A # later\<rparr>)
            = Some (lv\<lparr>sess := st', socket_buffer := line @ CHR 0x0A # later,
                      keep_running := False, loop_exit_status := status\<rparr>)"
    by (auto simp: process_lines_step [OF line])
next
  assume "r = 0"
  with run show "process_lines tb envs k (lv\<lparr>socket_buffer := line @ CHR 0x0A # later\<rparr>)
           = process_lines tb envs (Suc k) (lv\<lparr>sess := st', socket_buffer := later\<rparr>)"
    by (simp add: process_lines_step [OF line])
next
  assume ev: "0 < peek_ret e \<and> \<not> event_write_ok e \<and> select_ret e = 0
         \<and> event_step tb e (sess lv) = Some st0"
  then show "sock_writes st0 = sock_writes (sess lv) @ [(format_event (peek_event e), False)]"
    by (intro event_step_failed_write [of e tb]) simp_all
  from ev show "loop_body tb e lv = Some (lv\<lparr>sess := st0\<rparr>)"
    by (simp add: loop_body_def socket_step_def)
qed


theorem write_failure_effects_witness:
  "\<not> write_ok (cmd_envs (incoming_broken []) 0)
   \<and> handle_client_command utf8_termbox (cmd_envs (incoming_broken []) 0) small_session ''present''
       = Some (1, small_session\<lparr>tb_calls := [Tb_present], sock_writes := [(''OK'', False)],
                              stderr_out := [Perror ''Error writing OK response for present'']\<rparr>)
   \<and> text_line ''present''
   \<and> ok_failed small_session 1
        (small_session\<lparr>tb_calls := [Tb_present], sock_writes := [(''OK'', False)],
                        stderr_out := [Perror ''Error writing OK response for present'']\<rparr>)"
proof -
  let ?lv = "\<lparr>sess = small_session, socket_buffer = [], keep_running = True, loop_exit_status = 1\<rparr>"
  have env: "cmd_envs (incoming_broken []) 0 = broken_env"
    by (simp add: incoming_broken_def)
  have nw: "\<not> write_ok (cmd_envs (incoming_broken []) 0)"
    by (simp add: env broken_env_def)
  have run: "handle_client_command utf8_termbox (cmd_envs (incoming_broken []) 0) (sess ?lv) ''present''
       = Some (1, small_session\<lparr>tb_calls := [Tb_present], sock_writes := [(''OK'', False)],
                              stderr_out := [Perror ''Error writing OK response for present'']\<rparr>)"
    by (simp add: env present_refused)
  have line: "text_line ''present''"
    by (simp add: text_line_def)
  from write_failure_effects [where envs = "cmd_envs (incoming_broken [])" and k = 0, OF nw run line]
    nw run line
  show ?thesis
    by simp
qed

text \<open>
  The claim as stated fails twice.  A process whose first event line is refused serves on
  and exits with status 0 at the \<^verbatim>\<open>shutdown\<close> that follows; a process whose \<^verbatim>\<open>OK\<close> answer
  to \<^verbatim>\<open>present\<close> is refused stops the loop and exits with status 0 as well.
\<close>

theorem write_failure_counterexample:
  "map_option fst
     (main utf8_termbox
        (good_boot [pending_broken key_event, incoming (''shutdown'' @ [CHR 0x0A])])) = Some 0
   \<and> map_option (sock_writes \<circ> snd)
     (main utf8_termbox
        (good_boot [pending_broken key_event, incoming (''shutdown'' @ [CHR 0x0A])]))
       = Some [(format_event key_event, False), (''OK'', True)]
   \<and> map_option fst
     (main utf8_termbox (good_boot [incoming_broken (''present'' @ [CHR 0x0A])])) = Some 0
   \<and> map_option (sock_writes \<circ> snd)
     (main utf8_termbox (good_boot [incoming_broken (''present'' @ [CHR 0x0A])]))
       = Some [(''OK'', False)]"
  by (simp add: main_serving good_boot_ok run_defs cmd_defs present_branch_def eval_nat_numeral
      format_event_plain key_event_def)

lemma handle_shutdown:
  assumes "collect_args MAX_ARGS (c_str (strip_eol line)) = ''shutdown'' # rest"
  shows "handle_client_command tb env st line =
           Some (1, st\<lparr>sock_writes := sock_writes st @ [(''OK'', write_ok env)]\<rparr>)"
  unfolding handle_client_command_def assms
  by (simp add: write_socket_line_def c_str_def)

lemma dispatch_lines_append:
  "dispatch_lines tb envs k st pre = Some (st1, None) \<Longrightarrow>
   dispatch_lines tb envs k st (pre @ ls) = dispatch_lines tb envs (k + length pre) st1 ls"
proof (induction pre arbitrary: k st)
  case Nil
  then show ?case by simp
next
  case (Cons l pre)
  then show ?case
    by (auto split: option.splits if_splits)
qed

lemma socket_step_lines:
  assumes sel: "0 < select_ret e" "fd_isset e"
    and rd: "read_ret e = Read_bytes bytes" "bytes \<noteq> []"
    and room: "length (socket_buffer lv) + length bytes < SOCKET_BUFFER_SIZE"
    and buf: "socket_buffer lv @ bytes = wire ls @ partial"
    and lns: "list_all text_line ls" "CHR 0x0A \<notin> set partial"
    and running: "keep_running lv"
  shows "\<exists>b. socket_step tb e lv =
    (case dispatch_lines tb (cmd_envs e) 0 (sess lv) ls of
       None \<Rightarrow> None
     | Some (st', None) \<Rightarrow>
         Some (lv\<lparr>sess := st',
                 socket_buffer := (if SOCKET_BUFFER_SIZE - 1 \<le> length partial then [] else partial)\<rparr>)
     | Some (st', Some status) \<Rightarrow>
         Some (lv\<lparr>sess := st', socket_buffer := b, keep_running := False,
                 loop_exit_status := status\<rparr>))"
proof -
  have got: "take (SOCKET_BUFFER_SIZE - Suc (length (socket_buffer lv))) bytes = bytes"
    and free: "\<not> SOCKET_BUFFER_SIZE \<le> Suc (length (socket_buffer lv))"
    using room rd(2) by (cases bytes; simp)+
  obtain b where b: "process_lines tb (cmd_envs e) 0 (lv\<lparr>socket_buffer := wire ls @ partial\<rparr>) =
    (case dispatch_lines tb (cmd_envs e) 0 (sess lv) ls of
       None \<Rightarrow> None
     | Some (st', None) \<Rightarrow> Some (lv\<lparr>sess := st', socket_buffer := partial\<rparr>)
     | Some (st', Some status) \<Rightarrow>
         Some (lv\<lparr>sess := st', socket_buffer := b, keep_running := False,
                 loop_exit_status := status\<rparr>))"
    using process_lines_wire [OF lns, of tb "cmd_envs e" 0 lv] by blast
  have step: "socket_step tb e lv =
    (case process_lines tb (cmd_envs e) 0 (lv\<lparr>socket_buffer := wire ls @ partial\<rparr>) of
       None \<Rightarrow> None
     | Some lv2 \<Rightarrow>
         if \<not> keep_running lv2 then Some lv2
         else if length (socket_buffer lv2) \<ge> SOCKET_BUFFER_SIZE - 1
         then Some (lv2\<lparr>socket_buffer := []\<rparr>)
         else Some lv2)"
    using sel rd by (simp add: socket_step_def Let_def got free buf)
  show ?thesis
    unfolding step b using running
    by (intro exI [of _ b]) (auto split: option.splits)
qed

lemma loop_body_lines:
  assumes ev: "event_step tb e (sess lv) = Some st0"
    and sel: "0 < select_ret e" "fd_isset e"
    and rd: "read_ret e = Read_bytes bytes" "bytes \<noteq> []"
    and room: "length (socket_buffer lv) + length bytes < SOCKET_BUFFER_SIZE"
    and buf: "socket_buffer lv @ bytes = wire ls @ partial"
    and lns: "list_all text_line ls" "CHR 0x0A \<notin> set partial"
    and running: "keep_running lv"
  shows "\<exists>b. loop_body tb e lv =
    (case dispatch_lines tb (cmd_envs e) 0 st0 ls of
       None \<Rightarrow> None
     | Some (st', None) \<Rightarrow>
         Some (lv\<lparr>sess := st',
                 socket_buffer := (if SOCKET_BUFFER_SIZE - 1 \<le> length partial then [] else partial)\<rparr>)
     | Some (st', Some status) \<Rightarrow>
         Some (lv\<lparr>sess := st', socket_buffer := b, keep_running := False,
                 loop_exit_status := status\<rparr>))"
proof -
  obtain b where "socket_step tb e (lv\<lparr>sess := st0\<rparr>) =
    (case dispatch_lines tb (cmd_envs e) 0 (sess (lv\<lparr>sess := st0\<rparr>)) ls of
       None \<Rightarrow> None
     | Some (st', None) \<Rightarrow>
         Some (lv\<lparr>sess := st0\<rparr>\<lparr>sess := st',
                 socket_buffer := (if SOCKET_BUFFER_SIZE - 1 \<le> length partial then [] else partial)\<rparr>)
     | Some (st', Some status) \<Rightarrow>
         Some (lv\<lparr>sess := st0\<rparr>\<lparr>sess := st', socket_buffer := b, keep_running := False,
                 loop_exit_status := status\<rparr>))"
    using socket_step_lines [OF sel rd, of "lv\<lparr>sess := st0\<rparr>" ls partial tb] room buf lns running
    by auto
  then show ?thesis
    using ev by (intro exI [of _ b]) (simp add: loop_body_def split: option.splits)
qed

lemma args_shutdown: "collect_args MAX_ARGS (c_str (strip_eol ''shutdown'')) = [''shutdown'']"
  by (simp add: MAX_ARGS_def c_str_def strip_eol_def strtok_sp_def eval_nat_numeral)

lemma present_accepted:
  "handle_client_command tb quiet_env st ''present'' =
     Some (0, st\<lparr>tb_calls := tb_calls st @ [Tb_present],
                   sock_writes := sock_writes st @ [(''OK'', True)]\<rparr>)"
  unfolding handle_client_command_def args_present
  by (simp add: present_branch_def reply_checked_def write_socket_line_def c_str_def quiet_env_def)

text \<open>
  Claim C7 (shutdown).  Take a process whose start-up succeeds and that is still serving
  when, in some iteration, a read completes the lines \<open>pre\<close>, then a line whose first
  token is \<^verbatim>\<open>shutdown\<close>, then the lines \<open>post\<close>, the lines of \<open>pre\<close> being dispatched
  without stopping the loop.  Then the \<^verbatim>\<open>shutdown\<close> line is answered with \<^verbatim>\<open>OK\<close> and returns
  1, and the process exits with status 0 in the state the \<^verbatim>\<open>shutdown\<close> line left, plus
  \<^verbatim>\<open>tb_shutdown\<close>, the close of the client socket and the last log line: neither the
  lines of \<open>post\<close> nor anything read in a later iteration is dispatched.
\<close>

theorem shutdown_ends_session:
  assumes boot: "socket_ret env \<noteq> - 1" "bind_ret env \<noteq> - 1" "listen_ret env \<noteq> - 1"
      "accept_ret env \<noteq> - 1" "fcntl_getfl_ret env \<noteq> - 1" "fcntl_setfl_ret env \<noteq> - 1"
    and its: "iterations env = before @ e # after"
    and reach: "iterate tb (serving env) before = Some lv" "keep_running lv"
    and ev: "event_step tb e (sess lv) = Some st0"
    and sel: "0 < select_ret e" "fd_isset e"
    and rd: "read_ret e = Read_bytes bytes" "bytes \<noteq> []"
    and room: "length (socket_buffer lv) + length bytes < SOCKET_BUFFER_SIZE"
    and buf: "socket_buffer lv @ bytes = wire (pre @ line # post) @ partial"
    and lns: "list_all text_line (pre @ line # post)" "CHR 0x0A \<notin> set partial"
    and pre: "dispatch_lines tb (cmd_envs e) 0 st0 pre = Some (st1, None)"
    and sd: "collect_args MAX_ARGS (c_str (strip_eol line)) = ''shutdown'' # rest"
  shows "handle_client_command tb (cmd_envs e (length pre)) st1 line =
           Some (1, st1\<lparr>sock_writes := sock_writes st1 @
                           [(''OK'', write_ok (cmd_envs e (length pre)))]\<rparr>)
    \<and> main tb env =
        Some (0, st1\<lparr>sock_writes := sock_writes st1 @
                        [(''OK'', write_ok (cmd_envs e (length pre)))],
                      tb_calls := tb_calls st1 @ [Tb_shutdown],
                      sys_calls := sys_calls st1 @ [Sys_close_client],
                      stderr_out := stderr_out st1 @
                        [Fprintf ''termbox_port C_LOG: Port process exiting.'']\<rparr>)"
proof
  let ?st2 = "st1\<lparr>sock_writes := sock_writes st1 @ [(''OK'', write_ok (cmd_envs e (length pre)))]\<rparr>"
  show h: "handle_client_command tb (cmd_envs e (length pre)) st1 line = Some (1, ?st2)"
    using sd by (rule handle_shutdown)
  have "dispatch_lines tb (cmd_envs e) 0 st0 (pre @ line # post)
        = dispatch_lines tb (cmd_envs e) (0 + length pre) st1 (line # post)"
    using pre by (rule dispatch_lines_append)
  then have d: "dispatch_lines tb (cmd_envs e) 0 st0 (pre @ line # post) = Some (?st2, Some 0)"
    using h by simp
  obtain b where body: "loop_body tb e lv =
      Some (lv\<lparr>sess := ?st2, socket_buffer := b, keep_running := False, loop_exit_status := 0\<rparr>)"
    using loop_body_lines [OF ev sel rd room buf lns reach(2)] d by auto
  let ?lv2 = "lv\<lparr>sess := ?st2, socket_buffer := b, keep_running := False, loop_exit_status := 0\<rparr>"
  have "serve tb lv (e # after) = Some ?lv2"
    using reach(2) body by (simp add: serve_stopped)
  then have "serve tb (serving env) (iterations env) = Some ?lv2"
    using serve_append [OF reach(1), of "e # after"] its by simp
  then show "main tb env =
        Some (0, st1\<lparr>sock_writes := sock_writes st1 @
                        [(''OK'', write_ok (cmd_envs e (length pre)))],
                      tb_calls := tb_calls st1 @ [Tb_shutdown],
                      sys_calls := sys_calls st1 @ [Sys_close_client],
                      stderr_out := stderr_out st1 @
                        [Fprintf ''termbox_port C_LOG: Port process exiting.'']\<rparr>)"
    by (simp add: main_serving [OF boot] finished_def)
qed

theorem shutdown_ends_session_witness:
  "map_option fst
     (main utf8_termbox
        (good_boot [incoming (wire [''present'', ''shutdown'', ''clear'']), incoming (wire [''clear''])]))
     = Some 0
   \<and> map_option (tb_calls \<circ> snd)
     (main utf8_termbox
        (good_boot [incoming (wire [''present'', ''shutdown'', ''clear'']), incoming (wire [''clear''])]))
     = Some [Tb_peek_event 10, Tb_present, Tb_shutdown]
   \<and> map_option (sock_writes \<circ> snd)
     (main utf8_termbox
        (good_boot [incoming (wire [''present'', ''shutdown'', ''clear'']), incoming (wire [''clear''])]))
     = Some [(''OK'', True), (''OK'', True)]"
proof -
  let ?e = "incoming (wire [''present'', ''shutdown'', ''clear''])"
  let ?after = "[incoming (wire [''clear''])]"
  let ?env = "good_boot (?e # ?after)"
  let ?lv = "serving ?env"
  let ?st0 = "(sess ?lv)\<lparr>tb_calls := [Tb_peek_event 10]\<rparr>"
  let ?st1 = "?st0\<lparr>tb_calls := tb_calls ?st0 @ [Tb_present],
                    sock_writes := sock_writes ?st0 @ [(''OK'', True)]\<rparr>"
  have its: "iterations ?env = [] @ ?e # ?after"
    by (simp add: good_boot_def)
  have reach: "iterate utf8_termbox ?lv [] = Some ?lv" "keep_running ?lv"
    by (simp_all add: serving_def)
  have ev: "event_step utf8_termbox ?e (sess ?lv) = Some ?st0"
    by (simp add: event_step_def incoming_def idle_iter_def serving_def initial_session_def)
  have sel: "0 < select_ret ?e" "fd_isset ?e"
    by (simp_all add: incoming_def idle_iter_def)
  have rd: "read_ret ?e = Read_bytes (wire [''present'', ''shutdown'', ''clear''])"
      "wire [''present'', ''shutdown'', ''clear''] \<noteq> []"
    by (simp_all add: incoming_def idle_iter_def wire_def)
  have room: "length (socket_buffer ?lv) + length (wire [''present'', ''shutdown'', ''clear''])
      < SOCKET_BUFFER_SIZE"
    by (simp add: serving_def wire_def SOCKET_BUFFER_SIZE_def)
  have buf: "socket_buffer ?lv @ wire [''present'', ''shutdown'', ''clear'']
      = wire ([''present''] @ ''shutdown'' # [''clear'']) @ []"
    by (simp add: serving_def)
  have lns: "list_all text_line ([''present''] @ ''shutdown'' # [''clear''])" "CHR 0x0A \<notin> set []"
    by (simp_all add: text_line_def)
  have env0: "cmd_envs ?e 0 = quiet_env"
    by (simp add: incoming_def idle_iter_def)
  have pre: "dispatch_lines utf8_termbox (cmd_envs ?e) 0 ?st0 [''present''] = Some (?st1, None)"
    by (simp add: env0 present_accepted)
  from shutdown_ends_session [OF good_boot_ok(1-6) its reach ev sel rd room buf lns pre args_shutdown]
  show ?thesis
    by (simp add: serving_def initial_session_def incoming_def idle_iter_def quiet_env_def)
qed

subsection \<open>Ordering within one iteration\<close>

lemma appends_refl: "appends st st"
  by (simp add: appends_def)

lemma appends_frame: "sock_writes st1 = sock_writes st \<Longrightarrow> appends st1 st' \<Longrightarrow> appends st st'"
  by (simp add: appends_def)

lemma appends_trans: "appends st st1 \<Longrightarrow> appends st1 st2 \<Longrightarrow> appends st st2"
  by (auto simp: appends_def)

lemma reply_checked_appends: "appends st (snd (reply_checked env st r m))"
  by (simp add: reply_checked_def write_socket_line_def appends_def)

lemma reply_unchecked_appends: "appends st (snd (reply_unchecked env st r))"
  by (simp add: reply_unchecked_def write_socket_line_def appends_def)

lemma send_event_appends: "appends st (send_event_to_client ok st ev)"
  by (simp add: send_event_to_client_def write_socket_line_def appends_def)

lemma branch_appends:
  "appends st (snd (present_branch env st args))"
  "appends st (snd (clear_branch tb env st args))"
  "appends st (snd (change_cell_branch env st args))"
  "appends st (snd (get_cell_branch tb env st args))"
  "appends st (snd (width_branch env st args))"
  "appends st (snd (height_branch env st args))"
  "appends st (snd (set_cursor_branch env st args))"
  "appends st (snd (set_input_mode_branch env st args))"
  "appends st (snd (set_output_mode_branch env st args))"
  "appends st (snd (set_clear_attributes_branch env st args))"
  "appends st (snd (debug_send_event_branch env st args))"
  unfolding branch_defs Let_def
  by (auto split: option.splits
      intro!: reply_checked_appends reply_unchecked_appends send_event_appends
        appends_frame [OF _ reply_checked_appends] appends_frame [OF _ reply_unchecked_appends])

lemma print_appends:
  assumes "print_branch tb env st args = Some (r, st')"
  shows "appends st st'"
proof -
  have "appends st st' \<or> (\<exists>st1. sock_writes st1 = sock_writes st \<and> appends st1 st')"
    using assms reply_unchecked_appends [of st env] reply_checked_appends [of _ env]
    by (auto simp: print_branch_def Let_def split: if_splits option.splits
        dest!: print_loop_sock_writes) (metis snd_conv)+
  then show ?thesis
    by (auto intro: appends_frame)
qed


lemma handle_appends:
  assumes "handle_client_command tb env st line = Some (r, st')"
  shows "appends st st'"
proof -
  have pair: "f = (r, st') \<Longrightarrow> appends st (snd f) \<Longrightarrow> appends st st'" for f
    by simp
  have shut: "appends st (snd (write_socket_line (write_ok env) st ''OK''))"
    by (simp add: write_socket_line_def appends_def)
  have same: "appends s s" for s
    by (rule appends_refl)
  from assms show ?thesis
    unfolding handle_client_command_def Let_def
    by (auto split: if_splits
        intro: same shut print_appends
          pair [OF _ reply_unchecked_appends]
          pair [OF _ branch_appends(1)] pair [OF _ branch_appends(2)]
          pair [OF _ branch_appends(3)] pair [OF _ branch_appends(4)]
          pair [OF _ branch_appends(5)] pair [OF _ branch_appends(6)]
          pair [OF _ branch_appends(7)] pair [OF _ branch_appends(8)]
          pair [OF _ branch_appends(9)] pair [OF _ branch_appends(10)]
          pair [OF _ branch_appends(11)])
qed

lemma dispatch_lines_appends:
  "dispatch_lines tb envs k st ls = Some (st', status) \<Longrightarrow> appends st st'"
proof (induction ls arbitrary: k st)
  case Nil
  then show ?case by (simp add: appends_refl)
next
  case (Cons l ls)
  show ?case
  proof (cases "handle_client_command tb (envs k) st l")
    case None
    with Cons.prems show ?thesis by simp
  next
    case (Some res)
    obtain r st1 where res: "res = (r, st1)"
      by (cases res)
    have first: "appends st st1"
      using Some res by (auto dest: handle_appends)
    show ?thesis
    proof (cases "r = 1 \<or> r < 0")
      case True
      with Cons.prems Some res first show ?thesis
        by (auto split: if_splits)
    next
      case False
      with Cons.prems Some res have "dispatch_lines tb envs (Suc k) st1 ls = Some (st', status)"
        by simp
      then have "appends st1 st'"
        by (rule Cons.IH)
      with first show ?thesis
        by (rule appends_trans)
    qed
  qed
qed

lemma event_step_write:
  assumes "0 < peek_ret e" and "event_step tb e st = Some st0"
  shows "sock_writes st0 = sock_writes st @ [(format_event (peek_event e), event_write_ok e)]"
proof -
  have sent: "sock_writes (send_event_to_client ok s ev) = sock_writes s @ [(format_event ev, ok)]"
    for ok s ev
    using format_event_plain [of ev]
    by (simp add: send_event_to_client_def write_socket_line_def)
  show ?thesis
  proof (cases "ev_type (peek_event e) = TB_EVENT_RESIZE tb")
    case True
    with assms obtain st1 where
      "update_shadow_buffer_size tb (malloc_ret e) (st\<lparr>tb_calls := tb_calls st @ [Tb_peek_event 10]\<rparr>)
         (ev_w (peek_event e)) (ev_h (peek_event e)) = Some st1"
      and "st0 = send_event_to_client (event_write_ok e) st1 (peek_event e)"
      by (auto simp: event_step_def Let_def split: option.splits)
    then show ?thesis
      using update_shadow_buffer_size_sock_writes [of tb "malloc_ret e" _ _ _ st1]
      by (simp add: sent)
  next
    case False
    with assms show ?thesis
      by (auto simp: event_step_def Let_def sent)
  qed
qed

lemma args_width: "collect_args MAX_ARGS (c_str (strip_eol ''width'')) = [''width'']"
  by (simp add: MAX_ARGS_def c_str_def strip_eol_def strtok_sp_def eval_nat_numeral)

lemma args_height: "collect_args MAX_ARGS (c_str (strip_eol ''height'')) = [''height'']"
  by (simp add: MAX_ARGS_def c_str_def strip_eol_def strtok_sp_def eval_nat_numeral)

lemma show_int_80_24: "show_int 80 = ''80''" "show_int 24 = ''24''"
  by (simp_all add: show_int_def show_nat.simps char_of_eq_iff)

lemma width_answer:
  "handle_client_command tb quiet_env st ''width'' =
     Some (0, st\<lparr>tb_calls := tb_calls st @ [Tb_width],
                   sock_writes := sock_writes st @ [(''OK_WIDTH 80'', True)]\<rparr>)"
  unfolding handle_client_command_def args_width
  by (simp add: width_branch_def reply_checked_def write_socket_line_def c_str_def quiet_env_def
      show_int_80_24)

lemma height_answer:
  "handle_client_command tb quiet_env st ''height'' =
     Some (0, st\<lparr>tb_calls := tb_calls st @ [Tb_height],
                   sock_writes := sock_writes st @ [(''OK_HEIGHT 24'', True)]\<rparr>)"
  unfolding handle_client_command_def args_height
  by (simp add: height_branch_def reply_checked_def write_socket_line_def c_str_def quiet_env_def
      show_int_80_24)

lemma serving_fresh:
  "tb_calls (sess (serving env)) = []" "sock_writes (sess (serving env)) = []"
  "socket_buffer (serving env) = []" "keep_running (serving env)"
  by (simp_all add: serving_def initial_session_def)

text \<open>
  Claim C8.  In an iteration of the serving loop in which the bounded poll returns a pending
  event and the read returns bytes that hold the complete lines \<open>ls\<close> (and the start
  \<open>partial\<close> of a further one): the line of the event is the first thing the iteration writes
  to the client, before any command of \<open>ls\<close> is dispatched; the iteration then is the
  dispatch of the lines of \<open>ls\<close> one after the other in the order of arrival, each
  starting from the state its predecessor left, stopping at the first line that ends the
  session; and every response is appended behind what was written before it, so the
  responses reach the client in the order of the lines.
\<close>

theorem event_first_then_lines_in_order:
  assumes running: "keep_running lv"
    and pend: "0 < peek_ret e"
    and ev: "event_step tb e (sess lv) = Some st0"
    and sel: "0 < select_ret e" "fd_isset e"
    and rd: "read_ret e = Read_bytes bytes" "bytes \<noteq> []"
    and room: "length (socket_buffer lv) + length bytes < SOCKET_BUFFER_SIZE"
    and buf: "socket_buffer lv @ bytes = wire ls @ partial"
    and lns: "list_all text_line ls" "CHR 0x0A \<notin> set partial"
  shows "sock_writes st0 =
           sock_writes (sess lv) @ [(format_event (peek_event e), event_write_ok e)]
    \<and> (\<exists>b. loop_body tb e lv =
          (case dispatch_lines tb (cmd_envs e) 0 st0 ls of
             None \<Rightarrow> None
           | Some (st', None) \<Rightarrow>
               Some (lv\<lparr>sess := st',
                       socket_buffer :=
                         (if SOCKET_BUFFER_SIZE - 1 \<le> length partial then [] else partial)\<rparr>)
           | Some (st', Some status) \<Rightarrow>
               Some (lv\<lparr>sess := st', socket_buffer := b, keep_running := False,
                       loop_exit_status := status\<rparr>)))
    \<and> (\<forall>st' status. dispatch_lines tb (cmd_envs e) 0 st0 ls = Some (st', status) \<longrightarrow>
          appends st0 st')
    \<and> (\<forall>first rest st1. ls = first @ rest \<and>
          dispatch_lines tb (cmd_envs e) 0 st0 first = Some (st1, None) \<longrightarrow>
          appends st0 st1 \<and>
          dispatch_lines tb (cmd_envs e) 0 st0 ls =
            dispatch_lines tb (cmd_envs e) (length first) st1 rest)"
proof (intro conjI allI impI)
  show "sock_writes st0 = sock_writes (sess lv) @ [(format_event (peek_event e), event_write_ok e)]"
    using pend ev by (rule event_step_write)
  show "\<exists>b. loop_body tb e lv =
          (case dispatch_lines tb (cmd_envs e) 0 st0 ls of
             None \<Rightarrow> None
           | Some (st', None) \<Rightarrow>
               Some (lv\<lparr>sess := st',
                       socket_buffer :=
                         (if SOCKET_BUFFER_SIZE - 1 \<le> length partial then [] else partial)\<rparr>)
           | Some (st', Some status) \<Rightarrow>
               Some (lv\<lparr>sess := st', socket_buffer := b, keep_running := False,
                       loop_exit_status := status\<rparr>))"
    using ev sel rd room buf lns running by (rule loop_body_lines)
next
  fix st' status
  assume "dispatch_lines tb (cmd_envs e) 0 st0 ls = Some (st', status)"
  then show "appends st0 st'"
    by (rule dispatch_lines_appends)
next
  fix first rest st1
  assume a: "ls = first @ rest \<and> dispatch_lines tb (cmd_envs e) 0 st0 first = Some (st1, None)"
  then show "appends st0 st1"
    by (auto dest: dispatch_lines_appends)
  from a show "dispatch_lines tb (cmd_envs e) 0 st0 ls =
            dispatch_lines tb (cmd_envs e) (length first) st1 rest"
    using dispatch_lines_append [of tb "cmd_envs e" 0 st0 first st1 rest] by simp
qed

theorem event_first_then_lines_in_order_witness:
  "map_option (sock_writes \<circ> sess)
     (loop_body utf8_termbox (busy key_event (wire [''width'', ''height''])) (serving (good_boot [])))
   = Some [(format_event key_event, True), (''OK_WIDTH 80'', True), (''OK_HEIGHT 24'', True)]"
proof -
  let ?e = "busy key_event (wire [''width'', ''height''])"
  let ?lv = "serving (good_boot [])"
  let ?st0 = "send_event_to_client True ((sess ?lv)\<lparr>tb_calls := [Tb_peek_event 10]\<rparr>) key_event"
  have e: "peek_ret ?e = 1" "peek_event ?e = key_event" "event_write_ok ?e = True"
      "select_ret ?e = 1" "fd_isset ?e" "read_ret ?e = Read_bytes (wire [''width'', ''height''])"
      "cmd_envs ?e k = quiet_env" for k
    by (simp_all add: busy_def incoming_def idle_iter_def)
  have running: "keep_running ?lv"
    by (simp add: serving_def)
  have pend: "0 < peek_ret ?e"
    by (simp add: e)
  have kind: "ev_type key_event \<noteq> TB_EVENT_RESIZE utf8_termbox"
    by (simp add: key_event_def utf8_termbox_def)
  have ev: "event_step utf8_termbox ?e (sess ?lv) = Some ?st0"
    by (simp add: event_step_def Let_def e kind serving_fresh)
  have sel: "0 < select_ret ?e" "fd_isset ?e"
    by (simp_all add: e)
  have rd: "read_ret ?e = Read_bytes (wire [''width'', ''height''])"
    by (simp add: e)
  have nonempty: "wire [''width'', ''height''] \<noteq> []"
    by (simp add: wire_def)
  have room: "length (socket_buffer ?lv) + length (wire [''width'', ''height'']) < SOCKET_BUFFER_SIZE"
    by (simp add: serving_fresh wire_def SOCKET_BUFFER_SIZE_def)
  have buf: "socket_buffer ?lv @ wire [''width'', ''height''] = wire [''width'', ''height''] @ []"
    by (simp add: serving_fresh)
  have lns: "list_all text_line [''width'', ''height'']" "CHR 0x0A \<notin> set []"
    by (simp_all add: text_line_def)
  note claim = event_first_then_lines_in_order [OF running pend ev sel rd nonempty room buf lns]
  have first: "sock_writes ?st0 = sock_writes (sess ?lv) @ [(format_event key_event, True)]"
    using claim by (simp add: e)
  have d: "dispatch_lines utf8_termbox (cmd_envs ?e) 0 ?st0 [''width'', ''height''] =
      Some (?st0\<lparr>tb_calls := tb_calls ?st0 @ [Tb_width, Tb_height],
                  sock_writes := sock_writes ?st0 @ [(''OK_WIDTH 80'', True), (''OK_HEIGHT 24'', True)]\<rparr>,
            None)"
    by (simp add: e width_answer height_answer)
  from claim obtain b where
    "loop_body utf8_termbox ?e ?lv =
       (case dispatch_lines utf8_termbox (cmd_envs ?e) 0 ?st0 [''width'', ''height''] of
          None \<Rightarrow> None
        | Some (st', None) \<Rightarrow>
            Some (?lv\<lparr>sess := st',
                    socket_buffer := (if SOCKET_BUFFER_SIZE - 1 \<le> length [] then [] else [])\<rparr>)
        | Some (st', Some status) \<Rightarrow>
            Some (?lv\<lparr>sess := st', socket_buffer := b, keep_running := False,
                    loop_exit_status := status\<rparr>))"
    by auto
  then show ?thesis
    unfolding d using first by (simp add: serving_fresh)
qed

subsection \<open>Start-up\<close>

lemma stdout_write [simp]: "stdout_out (snd (write_socket_line ok st s)) = stdout_out st"
  by (simp add: write_socket_line_def)

lemma stdout_reply_checked [simp]: "stdout_out (snd (reply_checked env st r m)) = stdout_out st"
  by (simp add: reply_checked_def write_socket_line_def)

lemma stdout_reply_unchecked [simp]: "stdout_out (snd (reply_unchecked env st r)) = stdout_out st"
  by (simp add: reply_unchecked_def write_socket_line_def)

lemma stdout_send_event [simp]: "stdout_out (send_event_to_client ok st ev) = stdout_out st"
  by (simp add: send_event_to_client_def write_socket_line_def)

lemma stdout_store [simp]: "stdout_out (shadow_buffer_store st x y c) = stdout_out st"
  by (simp add: shadow_buffer_store_def split: option.splits)

lemma stdout_change [simp]: "stdout_out (tb_change_cell st x y c f b) = stdout_out st"
  by (simp add: tb_change_cell_def)

lemma stdout_resize:
  "update_shadow_buffer_size tb malloc st w h = Some st' \<Longrightarrow> stdout_out st' = stdout_out st"
  by (auto simp: update_shadow_buffer_size_def Let_def split: if_splits option.splits)

lemma stdout_print_loop:
  "print_loop tb st text_ptr x y f b = Some st' \<Longrightarrow> stdout_out st' = stdout_out st"
  by (erule print_loop_steps [where P = "\<lambda>s s'. stdout_out s' = stdout_out s"]) simp_all

lemma stdout_branches:
  "stdout_out (snd (present_branch env st args)) = stdout_out st"
  "stdout_out (snd (clear_branch tb env st args)) = stdout_out st"
  "stdout_out (snd (change_cell_branch env st args)) = stdout_out st"
  "stdout_out (snd (get_cell_branch tb env st args)) = stdout_out st"
  "stdout_out (snd (width_branch env st args)) = stdout_out st"
  "stdout_out (snd (height_branch env st args)) = stdout_out st"
  "stdout_out (snd (set_cursor_branch env st args)) = stdout_out st"
  "stdout_out (snd (set_input_mode_branch env st args)) = stdout_out st"
  "stdout_out (snd (set_output_mode_branch env st args)) = stdout_out st"
  "stdout_out (snd (set_clear_attributes_branch env st args)) = stdout_out st"
  "stdout_out (snd (debug_send_event_branch env st args)) = stdout_out st"
  unfolding branch_defs Let_def
  by (simp_all split: option.splits)

lemma stdout_print:
  assumes "print_branch tb env st args = Some (r, st')"
  shows "stdout_out st' = stdout_out st"
  using assms
  by (auto simp: print_branch_def Let_def split: if_splits option.splits
      dest!: stdout_print_loop)
    (metis snd_conv stdout_reply_checked stdout_reply_unchecked)+

lemma stdout_handle:
  assumes "handle_client_command tb env st line = Some (r, st')"
  shows "stdout_out st' = stdout_out st"
proof -
  have pair: "f = (r, st') \<Longrightarrow> stdout_out (snd f) = stdout_out st \<Longrightarrow> stdout_out st' = stdout_out st" for f
    by simp
  from assms show ?thesis
    unfolding handle_client_command_def Let_def
    by (auto split: if_splits
        intro: stdout_print
          pair [OF _ stdout_reply_unchecked] pair [OF _ stdout_write]
          pair [OF _ stdout_branches(1)] pair [OF _ stdout_branches(2)]
          pair [OF _ stdout_branches(3)] pair [OF _ stdout_branches(4)]
          pair [OF _ stdout_branches(5)] pair [OF _ stdout_branches(6)]
          pair [OF _ stdout_branches(7)] pair [OF _ stdout_branches(8)]
          pair [OF _ stdout_branches(9)] pair [OF _ stdout_branches(10)]
          pair [OF _ stdout_branches(11)])
qed

lemma stdout_process_lines:
  "process_lines tb envs k lv = Some lv' \<Longrightarrow> stdout_out (sess lv') = stdout_out (sess lv)"
proof (induction tb envs k lv rule: process_lines.induct)
  case (1 tb envs k lv)
  show ?case
  proof (cases "strchr_nl (socket_buffer lv)")
    case None
    with "1.prems" show ?thesis
      by (subst (asm) process_lines.simps) simp
  next
    case (Some i)
    from "1.prems" Some obtain r st1 where
      h: "handle_client_command tb (envs k) (sess lv) (take i (socket_buffer lv)) = Some (r, st1)"
      by (subst (asm) process_lines.simps) (auto split: option.splits)
    note first = stdout_handle [OF h]
    show ?thesis
    proof (cases "r = 1 \<or> r < 0")
      case True
      with "1.prems" Some h first show ?thesis
        by (subst (asm) process_lines.simps) (auto split: if_splits)
    next
      case False
      with "1.prems" Some h have
        "process_lines tb envs (Suc k)
           (lv\<lparr>sess := st1, socket_buffer := drop (Suc i) (socket_buffer lv)\<rparr>) = Some lv'"
        by (subst (asm) process_lines.simps) simp
      from "1.IH" [OF Some h refl _ _ this] False first show ?thesis
        by simp
    qed
  qed
qed

lemma stdout_event_step:
  "event_step tb e st = Some st' \<Longrightarrow> stdout_out st' = stdout_out st"
  by (auto simp: event_step_def Let_def split: if_splits option.splits dest: stdout_resize)

lemma stdout_socket_step:
  "socket_step tb e lv = Some lv' \<Longrightarrow> stdout_out (sess lv') = stdout_out (sess lv)"
  by (auto simp: socket_step_def Let_def split: if_splits option.splits read_result.splits
      dest: stdout_process_lines)

lemma stdout_loop_body:
  "loop_body tb e lv = Some lv' \<Longrightarrow> stdout_out (sess lv') = stdout_out (sess lv)"
  by (auto simp: loop_body_def split: option.splits
      dest!: stdout_event_step stdout_socket_step)

lemma stdout_serve:
  "serve tb lv es = Some lv' \<Longrightarrow> stdout_out (sess lv') = stdout_out (sess lv)"
proof (induction es arbitrary: lv)
  case Nil
  then show ?case by (simp split: if_splits)
next
  case (Cons e es)
  then show ?case
    by (auto split: if_splits option.splits dest!: stdout_loop_body)
qed

lemma stdout_run_main_loop:
  "run_main_loop tb env st fd path = Some (r, st') \<Longrightarrow> stdout_out st' = stdout_out st"
  by (auto simp: run_main_loop_def Let_def sys_def log_stderr_def
      split: if_splits option.splits dest!: stdout_serve)

lemma main_listening:
  assumes "socket_ret env \<noteq> - 1" "bind_ret env \<noteq> - 1" "listen_ret env \<noteq> - 1"
  shows "main tb env =
           map_option exit_of (run_main_loop tb env (listening env) (socket_ret env) (socket_path env))"
  using assms
  by (simp add: main_def Let_def sys_def log_stderr_def listening_def socket_path_def
      initial_session_def exit_of_def split: option.splits)

lemma show_int_4242: "show_int 4242 = ''4242''"
  by (simp add: show_int_def show_nat.simps char_of_eq_iff)

lemma peer_closed_run:
  "main utf8_termbox (good_boot [incoming []]) =
     Some (finished ((serving (good_boot [incoming []]))
       \<lparr>sess := (sess (serving (good_boot [incoming []])))\<lparr>tb_calls := [Tb_peek_event 10]\<rparr>,
        keep_running := False, loop_exit_status := 0\<rparr>))"
  unfolding main_serving [OF good_boot_ok(1-6)] good_boot_ok(7)
  by (simp add: loop_body_def event_step_def socket_step_def Let_def incoming_def idle_iter_def
      serving_fresh)

text \<open>
  Claim C9.  When \<^verbatim>\<open>socket\<close>, \<^verbatim>\<open>bind\<close> or \<^verbatim>\<open>listen\<close> fails, \<^verbatim>\<open>main\<close> returns 1, nothing
  has been written to the standard output, the standard error holds the start-up line,
  the \<^verbatim>\<open>perror\<close> line and then \<^verbatim>\<open>error socket_create_failed\<close>,
  \<^verbatim>\<open>error socket_bind_failed\<close> or \<^verbatim>\<open>error socket_listen_failed\<close>, and \<^verbatim>\<open>accept\<close> has not
  been called.  When the three calls succeed, \<^verbatim>\<open>main\<close> is \<^verbatim>\<open>run_main_loop\<close> started in a
  session whose standard output is the one line \<^verbatim>\<open>OK <socket-path>\<close>, written before
  \<^verbatim>\<open>accept\<close> is called, and the standard output of every run that returns is that line
  and nothing else.
\<close>

theorem bootstrap_report:
  "(socket_ret env = - 1 \<longrightarrow>
      (\<exists>st. main tb env = Some (1, st) \<and> stdout_out st = []
         \<and> stderr_out st =
             [Fprintf ''termbox_port C_LOG: Port process starting up (UDS PATH VIA STDOUT MODE).'',
              Perror ''Error creating listen socket'', Fprintf ''error socket_create_failed'']
         \<and> Sys_accept \<notin> set (sys_calls st)))
   \<and> (socket_ret env \<noteq> - 1 \<and> bind_ret env = - 1 \<longrightarrow>
      (\<exists>st. main tb env = Some (1, st) \<and> stdout_out st = []
         \<and> stderr_out st =
             [Fprintf ''termbox_port C_LOG: Port process starting up (UDS PATH VIA STDOUT MODE).'',
              Perror ''Error binding socket'', Fprintf ''error socket_bind_failed'']
         \<and> Sys_accept \<notin> set (sys_calls st)))
   \<and> (socket_ret env \<noteq> - 1 \<and> bind_ret env \<noteq> - 1 \<and> listen_ret env = - 1 \<longrightarrow>
      (\<exists>st. main tb env = Some (1, st) \<and> stdout_out st = []
         \<and> stderr_out st =
             [Fprintf ''termbox_port C_LOG: Port process starting up (UDS PATH VIA STDOUT MODE).'',
              Perror ''Error listening on socket'', Fprintf ''error socket_listen_failed'']
         \<and> Sys_accept \<notin> set (sys_calls st)))
   \<and> (socket_ret env \<noteq> - 1 \<and> bind_ret env \<noteq> - 1 \<and> listen_ret env \<noteq> - 1 \<longrightarrow>
      main tb env =
        map_option exit_of (run_main_loop tb env (listening env) (socket_ret env) (socket_path env))
      \<and> stdout_out (listening env) = [''OK '' @ socket_path env]
      \<and> Sys_accept \<notin> set (sys_calls (listening env))
      \<and> (\<forall>r st. main tb env = Some (r, st) \<longrightarrow> stdout_out st = [''OK '' @ socket_path env]))"
proof (intro conjI impI)
  assume "socket_ret env = - 1"
  then show "\<exists>st. main tb env = Some (1, st) \<and> stdout_out st = []
         \<and> stderr_out st =
             [Fprintf ''termbox_port C_LOG: Port process starting up (UDS PATH VIA STDOUT MODE).'',
              Perror ''Error creating listen socket'', Fprintf ''error socket_create_failed'']
         \<and> Sys_accept \<notin> set (sys_calls st)"
    by (simp add: main_def Let_def sys_def log_stderr_def initial_session_def)
next
  assume "socket_ret env \<noteq> - 1 \<and> bind_ret env = - 1"
  then show "\<exists>st. main tb env = Some (1, st) \<and> stdout_out st = []
         \<and> stderr_out st =
             [Fprintf ''termbox_port C_LOG: Port process starting up (UDS PATH VIA STDOUT MODE).'',
              Perror ''Error binding socket'', Fprintf ''error socket_bind_failed'']
         \<and> Sys_accept \<notin> set (sys_calls st)"
    by (simp add: main_def Let_def sys_def log_stderr_def initial_session_def)
next
  assume "socket_ret env \<noteq> - 1 \<and> bind_ret env \<noteq> - 1 \<and> listen_ret env = - 1"
  then show "\<exists>st. main tb env = Some (1, st) \<and> stdout_out st = []
         \<and> stderr_out st =
             [Fprintf ''termbox_port C_LOG: Port process starting up (UDS PATH VIA STDOUT MODE).'',
              Perror ''Error listening on socket'', Fprintf ''error socket_listen_failed'']
         \<and> Sys_accept \<notin> set (sys_calls st)"
    by (simp add: main_def Let_def sys_def log_stderr_def initial_session_def)
next
  assume ok: "socket_ret env \<noteq> - 1 \<and> bind_ret env \<noteq> - 1 \<and> listen_ret env \<noteq> - 1"
  then show m: "main tb env =
        map_option exit_of (run_main_loop tb env (listening env) (socket_ret env) (socket_path env))"
    by (simp add: main_listening)
  show out: "stdout_out (listening env) = [''OK '' @ socket_path env]"
    by (simp add: listening_def)
  show "Sys_accept \<notin> set (sys_calls (listening env))"
    by (simp add: listening_def)
  show "\<forall>r st. main tb env = Some (r, st) \<longrightarrow> stdout_out st = [''OK '' @ socket_path env]"
  proof (intro allI impI)
    fix r st
    assume "main tb env = Some (r, st)"
    with m have "map_option exit_of
        (run_main_loop tb env (listening env) (socket_ret env) (socket_path env)) = Some (r, st)"
      by simp
    then obtain r' st' where
      run: "run_main_loop tb env (listening env) (socket_ret env) (socket_path env) = Some (r', st')"
      and st: "st = log_stderr st' [Fprintf ''termbox_port C_LOG: Port process exiting.'']"
      by (cases "run_main_loop tb env (listening env) (socket_ret env) (socket_path env)")
        (auto simp: exit_of_def)
    from stdout_run_main_loop [OF run] out st
    show "stdout_out st = [''OK '' @ socket_path env]"
      by (simp add: log_stderr_def)
  qed
qed

theorem bootstrap_report_witness:
  "map_option (stderr_out \<circ> snd) (main utf8_termbox no_socket) =
     Some [Fprintf ''termbox_port C_LOG: Port process starting up (UDS PATH VIA STDOUT MODE).'',
           Perror ''Error creating listen socket'', Fprintf ''error socket_create_failed'']
   \<and> map_option (stderr_out \<circ> snd) (main utf8_termbox no_bind) =
     Some [Fprintf ''termbox_port C_LOG: Port process starting up (UDS PATH VIA STDOUT MODE).'',
           Perror ''Error binding socket'', Fprintf ''error socket_bind_failed'']
   \<and> map_option (stderr_out \<circ> snd) (main utf8_termbox no_listen) =
     Some [Fprintf ''termbox_port C_LOG: Port process starting up (UDS PATH VIA STDOUT MODE).'',
           Perror ''Error listening on socket'', Fprintf ''error socket_listen_failed'']
   \<and> map_option (stdout_out \<circ> snd) (main utf8_termbox (good_boot [incoming []])) =
     Some [''OK /tmp/termbox_port_4242.sock'']
   \<and> map_option fst (main utf8_termbox (good_boot [incoming []])) = Some 0"
proof -
  have a: "socket_ret no_socket = - 1"
    by (simp add: no_socket_def)
  have b: "socket_ret no_bind \<noteq> - 1 \<and> bind_ret no_bind = - 1"
    by (simp add: no_bind_def good_boot_def)
  have c: "socket_ret no_listen \<noteq> - 1 \<and> bind_ret no_listen \<noteq> - 1 \<and> listen_ret no_listen = - 1"
    by (simp add: no_listen_def good_boot_def)
  have d: "socket_ret (good_boot [incoming []]) \<noteq> - 1 \<and> bind_ret (good_boot [incoming []]) \<noteq> - 1
      \<and> listen_ret (good_boot [incoming []]) \<noteq> - 1"
    by (simp add: good_boot_def)
  have path: "socket_path (good_boot [incoming []]) = ''/tmp/termbox_port_4242.sock''"
    by (simp add: socket_path_def good_boot_def show_int_4242)
  have code: "fst (finished (lv\<lparr>loop_exit_status := 0\<rparr>)) = 0" for lv
    by (simp add: finished_def)
  from bootstrap_report [of no_socket utf8_termbox] a
  have 1: "map_option (stderr_out \<circ> snd) (main utf8_termbox no_socket) =
     Some [Fprintf ''termbox_port C_LOG: Port process starting up (UDS PATH VIA STDOUT MODE).'',
           Perror ''Error creating listen socket'', Fprintf ''error socket_create_failed'']"
    by auto
  from bootstrap_report [of no_bind utf8_termbox] b
  have 2: "map_option (stderr_out \<circ> snd) (main utf8_termbox no_bind) =
     Some [Fprintf ''termbox_port C_LOG: Port process starting up (UDS PATH VIA STDOUT MODE).'',
           Perror ''Error binding socket'', Fprintf ''error socket_bind_failed'']"
    by auto
  from bootstrap_report [of no_listen utf8_termbox] c
  have 3: "map_option (stderr_out \<circ> snd) (main utf8_termbox no_listen) =
     Some [Fprintf ''termbox_port C_LOG: Port process starting up (UDS PATH VIA STDOUT MODE).'',
           Perror ''Error listening on socket'', Fprintf ''error socket_listen_failed'']"
    by auto
  from bootstrap_report [of "good_boot [incoming []]" utf8_termbox] d
  have "\<forall>r st. main utf8_termbox (good_boot [incoming []]) = Some (r, st) \<longrightarrow>
      stdout_out st = [''OK '' @ socket_path (good_boot [incoming []])]"
    by blast
  then have 4: "map_option (stdout_out \<circ> snd) (main utf8_termbox (good_boot [incoming []])) =
     Some [''OK /tmp/termbox_port_4242.sock'']"
    unfolding path peer_closed_run by (simp add: prod_eq_iff)
  have 5: "map_option fst (main utf8_termbox (good_boot [incoming []])) = Some 0"
    unfolding peer_closed_run by (simp add: code)
  from 1 2 3 4 5 show ?thesis
    by (intro conjI)
qed

theorem bootstrap_failure_counterexample:
  "map_option (stdout_out \<circ> snd) (main utf8_termbox no_socket) = Some []
   \<and> map_option (stdout_out \<circ> snd) (main utf8_termbox no_bind) = Some []
   \<and> map_option (stdout_out \<circ> snd) (main utf8_termbox no_listen) = Some []
   \<and> map_option (stderr_out \<circ> snd) (main utf8_termbox no_socket) =
     Some [Fprintf ''termbox_port C_LOG: Port process starting up (UDS PATH VIA STDOUT MODE).'',
           Perror ''Error creating listen socket'', Fprintf ''error socket_create_failed'']"
  by (simp add: main_def Let_def sys_def log_stderr_def initial_session_def
      no_socket_def no_bind_def no_listen_def good_boot_def)

subsection \<open>Resizing the cache\<close>

lemma shutdown_iteration:
  assumes "keep_running lv" "socket_buffer lv = []"
  shows "loop_body utf8_termbox (incoming (wire [''shutdown''])) lv =
     Some (lv\<lparr>sess := (sess lv)\<lparr>tb_calls := tb_calls (sess lv) @ [Tb_peek_event 10],
                                sock_writes := sock_writes (sess lv) @ [(''OK'', True)]\<rparr>,
              socket_buffer := wire [''shutdown''],
              keep_running := False, loop_exit_status := 0\<rparr>)"
  using assms
  by (simp add: loop_body_def event_step_def socket_step_def process_lines.simps
      write_socket_line_def Let_def idle_iter_def incoming_def quiet_env_def
      SOCKET_BUFFER_SIZE_def wire_def cmd_defs eval_nat_numeral c_str_def)

lemma resize_iteration_no_memory:
  assumes "keep_running lv" "0 < w" "0 < h"
  shows "loop_body utf8_termbox (pending_no_memory (resize_event w h)) lv =
     Some (lv\<lparr>sess := (sess lv)
              \<lparr>shadow_buffer := None, shadow_buffer_width := 0, shadow_buffer_height := 0,
               tb_calls := tb_calls (sess lv) @ [Tb_peek_event 10],
               sock_writes := sock_writes (sess lv) @ [(format_event (resize_event w h), True)],
               stderr_out := stderr_out (sess lv) @
                 [alloc_failure_log ((nat w * nat h * sizeof_tb_cell) mod 2 ^ 64)]\<rparr>\<rparr>)"
proof -
  have kind: "ev_type (resize_event w h) = TB_EVENT_RESIZE utf8_termbox"
      "ev_w (resize_event w h) = w" "ev_h (resize_event w h) = h"
    by (simp_all add: resize_event_def utf8_termbox_def)
  show ?thesis
    using assms
    by (simp add: loop_body_def event_step_def socket_step_def Let_def pending_no_memory_def
        pending_def idle_iter_def kind update_shadow_buffer_size_def send_event_to_client_def
        write_socket_line_def format_event_plain)
qed

text \<open>
  Claim C6.  \<^verbatim>\<open>update_shadow_buffer_size\<close> returns to its caller in every case in which the
  byte count fits \<^verbatim>\<open>size_t\<close>, and touches nothing but the cache and the standard error:
  with a non-positive dimension the cache becomes empty (no storage, width and height 0);
  otherwise, when the allocator gives a block, the cache is exactly \<open>width * height\<close>
  default cells with the new width and height; and when the allocator gives none, one
  line goes to the standard error and the cache is left empty.  At its call site, the
  resize event of the serving loop, the iteration goes on in all three cases: the event
  is sent to the client and the socket is served, with the loop still running.
\<close>

theorem resize_outcome:
  assumes fits: "width \<le> 0 \<or> height \<le> 0 \<or> nat width * nat height * sizeof_tb_cell < 2 ^ 64"
  shows "\<exists>st'. update_shadow_buffer_size tb malloc st width height = Some st'
      \<and> tb_calls st' = tb_calls st \<and> sock_writes st' = sock_writes st
      \<and> stdout_out st' = stdout_out st \<and> sys_calls st' = sys_calls st
      \<and> (width \<le> 0 \<or> height \<le> 0 \<longrightarrow>
           shadow_buffer st' = None \<and> shadow_buffer_width st' = 0 \<and> shadow_buffer_height st' = 0
           \<and> stderr_out st' = stderr_out st)
      \<and> (0 < width \<and> 0 < height \<and> malloc (nat width * nat height * sizeof_tb_cell) \<noteq> None \<longrightarrow>
           shadow_buffer st' = Some (replicate (nat width * nat height) (default_cell tb))
           \<and> shadow_buffer_width st' = width \<and> shadow_buffer_height st' = height
           \<and> stderr_out st' = stderr_out st)
      \<and> (0 < width \<and> 0 < height \<and> malloc (nat width * nat height * sizeof_tb_cell) = None \<longrightarrow>
           shadow_buffer st' = None \<and> shadow_buffer_width st' = 0 \<and> shadow_buffer_height st' = 0
           \<and> stderr_out st' = stderr_out st @
                [alloc_failure_log (nat width * nat height * sizeof_tb_cell)])
      \<and> (\<forall>e lv. 0 < peek_ret e \<and> ev_type (peek_event e) = TB_EVENT_RESIZE tb
             \<and> ev_w (peek_event e) = width \<and> ev_h (peek_event e) = height
             \<and> malloc_ret e = malloc
             \<and> st = (sess lv)\<lparr>tb_calls := tb_calls (sess lv) @ [Tb_peek_event 10]\<rparr> \<longrightarrow>
           loop_body tb e lv =
             socket_step tb e
               (lv\<lparr>sess := send_event_to_client (event_write_ok e) st' (peek_event e)\<rparr>))"
  unfolding update_shadow_buffer_size_eq [OF fits]
  by (auto simp: loop_body_def event_step_def Let_def update_shadow_buffer_size_eq [OF fits]
      split: option.splits)

theorem resize_outcome_witness:
  "update_shadow_buffer_size utf8_termbox (\<lambda>n. None) initial_session 0 5 = Some initial_session
   \<and> update_shadow_buffer_size utf8_termbox (\<lambda>n. Some (\<lambda>i. \<lparr>ch = 7, fg = 7, bg = 7\<rparr>))
       initial_session 2 1 =
     Some (initial_session
       \<lparr>shadow_buffer := Some [\<lparr>ch = 32, fg = 0, bg = 0\<rparr>, \<lparr>ch = 32, fg = 0, bg = 0\<rparr>],
        shadow_buffer_width := 2, shadow_buffer_height := 1\<rparr>)
   \<and> update_shadow_buffer_size utf8_termbox (\<lambda>n. None) initial_session 80 24 =
     Some (initial_session\<lparr>stderr_out := [alloc_failure_log 15360]\<rparr>)"
proof -
  have a: "(0::int) \<le> 0 \<or> (5::int) \<le> 0 \<or> nat 0 * nat 5 * sizeof_tb_cell < 2 ^ 64"
    by simp
  have b: "(2::int) \<le> 0 \<or> (1::int) \<le> 0 \<or> nat 2 * nat 1 * sizeof_tb_cell < 2 ^ 64"
    by (simp add: sizeof_tb_cell_def)
  have c: "(80::int) \<le> 0 \<or> (24::int) \<le> 0 \<or> nat 80 * nat 24 * sizeof_tb_cell < 2 ^ 64"
    by (simp add: sizeof_tb_cell_def)
  have two: "replicate (nat 2 * nat 1) d = [d, d]" for d :: tb_cell
    by (simp add: eval_nat_numeral)
  have size: "nat 80 * nat 24 * sizeof_tb_cell = 15360"
    by (simp add: sizeof_tb_cell_def)
  from resize_outcome [OF a, of utf8_termbox "\<lambda>n. None" initial_session]
  have 1: "update_shadow_buffer_size utf8_termbox (\<lambda>n. None) initial_session 0 5 = Some initial_session"
    by (auto simp: initial_session_def)
  from resize_outcome [OF b, of utf8_termbox "\<lambda>n. Some (\<lambda>i. \<lparr>ch = 7, fg = 7, bg = 7\<rparr>)" initial_session]
  have 2: "update_shadow_buffer_size utf8_termbox (\<lambda>n. Some (\<lambda>i. \<lparr>ch = 7, fg = 7, bg = 7\<rparr>))
       initial_session 2 1 =
     Some (initial_session
       \<lparr>shadow_buffer := Some [\<lparr>ch = 32, fg = 0, bg = 0\<rparr>, \<lparr>ch = 32, fg = 0, bg = 0\<rparr>],
        shadow_buffer_width := 2, shadow_buffer_height := 1\<rparr>)"
    unfolding two by (auto simp: initial_session_def default_cell_def utf8_termbox_def)
  from resize_outcome [OF c, of utf8_termbox "\<lambda>n. None" initial_session]
  have 3: "update_shadow_buffer_size utf8_termbox (\<lambda>n. None) initial_session 80 24 =
     Some (initial_session\<lparr>stderr_out := [alloc_failure_log 15360]\<rparr>)"
    unfolding size by (auto simp: initial_session_def)
  from 1 2 3 show ?thesis
    by (intro conjI)
qed

text \<open>
  A failed allocation is not fatal to the process: with no memory for the cache of a
  resize to 80 by 24, the event is forwarded, the cache is empty, the next iteration
  answers \<^verbatim>\<open>shutdown\<close> and the process exits with status 0.
\<close>

theorem resize_no_memory_counterexample:
  "map_option fst
     (main utf8_termbox
        (good_boot [pending_no_memory (resize_event 80 24), incoming (wire [''shutdown''])])) = Some 0
   \<and> map_option (sock_writes \<circ> snd)
     (main utf8_termbox
        (good_boot [pending_no_memory (resize_event 80 24), incoming (wire [''shutdown''])]))
       = Some [(format_event (resize_event 80 24), True), (''OK'', True)]
   \<and> map_option (shadow_buffer \<circ> snd)
     (main utf8_termbox
        (good_boot [pending_no_memory (resize_event 80 24), incoming (wire [''shutdown''])]))
       = Some None
   \<and> map_option (\<lambda>res. alloc_failure_log 15360 \<in> set (stderr_out (snd res)))
     (main utf8_termbox
        (good_boot [pending_no_memory (resize_event 80 24), incoming (wire [''shutdown''])]))
       = Some True"
  by (simp add: main_serving good_boot_ok resize_iteration_no_memory shutdown_iteration
      serving_fresh finished_def sizeof_tb_cell_def)

subsection \<open>Reading after a resize\<close>

lemma paints_simps [simp]:
  "paints x y [] = False"
  "paints x y (cs @ ds) = (paints x y cs \<or> paints x y ds)"
  "paints x y [Tb_change_cell x' y' c f b] = (x' = x \<and> y' = y)"
  "paints x y [Tb_present] = False" "paints x y [Tb_clear] = False"
  "paints x y [Tb_width] = False" "paints x y [Tb_height] = False"
  "paints x y [Tb_set_cursor cx cy] = False" "paints x y [Tb_select_input_mode m] = False"
  "paints x y [Tb_select_output_mode m] = False" "paints x y [Tb_set_clear_attributes f b] = False"
  "paints x y [Tb_peek_event n] = False" "paints x y [Tb_shutdown] = False"
  by (simp_all add: paints_def)

lemma keeps_refl: "keeps tb W H x y st st"
  by (simp add: keeps_def)

lemma keeps_trans:
  assumes "keeps tb W H x y st st1" "keeps tb W H x y st1 st2"
  shows "keeps tb W H x y st st2"
proof -
  from assms(1) obtain cs where 1: "tb_calls st1 = tb_calls st @ cs"
    and k1: "sized W H st \<longrightarrow> sized W H st1 \<and>
           (cell_at st x y = Some (default_cell tb) \<and> \<not> paints x y cs \<longrightarrow>
              cell_at st1 x y = Some (default_cell tb))"
    unfolding keeps_def by blast
  from assms(2) obtain ds where 2: "tb_calls st2 = tb_calls st1 @ ds"
    and k2: "sized W H st1 \<longrightarrow> sized W H st2 \<and>
           (cell_at st1 x y = Some (default_cell tb) \<and> \<not> paints x y ds \<longrightarrow>
              cell_at st2 x y = Some (default_cell tb))"
    unfolding keeps_def by blast
  have "tb_calls st2 = tb_calls st @ (cs @ ds)"
    using 1 2 by simp
  moreover have "sized W H st \<longrightarrow> sized W H st2 \<and>
           (cell_at st x y = Some (default_cell tb) \<and> \<not> paints x y (cs @ ds) \<longrightarrow>
              cell_at st2 x y = Some (default_cell tb))"
    using k1 k2 by simp
  ultimately show ?thesis
    unfolding keeps_def by blast
qed

lemma keeps_same:
  assumes "tb_calls st' = tb_calls st" "shadow_buffer st' = shadow_buffer st"
    "shadow_buffer_width st' = shadow_buffer_width st"
    "shadow_buffer_height st' = shadow_buffer_height st"
  shows "keeps tb W H x y st st'"
proof -
  have "cell_at st' x y = cell_at st x y"
    unfolding cell_at_def assms ..
  moreover have "sized W H st' = sized W H st"
    unfolding sized_def assms ..
  ultimately show ?thesis
    by (simp add: keeps_def assms(1))
qed

lemma keeps_call:
  assumes "tb_calls st' = tb_calls st @ [c]" "\<not> paints x y [c]"
    "shadow_buffer st' = shadow_buffer st"
    "shadow_buffer_width st' = shadow_buffer_width st"
    "shadow_buffer_height st' = shadow_buffer_height st"
  shows "keeps tb W H x y st st'"
proof -
  have "cell_at st' x y = cell_at st x y"
    unfolding cell_at_def assms(3-5) ..
  moreover have "sized W H st' = sized W H st"
    unfolding sized_def assms(3-5) ..
  ultimately show ?thesis
    by (simp add: keeps_def assms(1))
qed

lemma cache_write [simp]:
  "tb_calls (snd (write_socket_line ok st r)) = tb_calls st"
  "shadow_buffer (snd (write_socket_line ok st r)) = shadow_buffer st"
  "shadow_buffer_width (snd (write_socket_line ok st r)) = shadow_buffer_width st"
  "shadow_buffer_height (snd (write_socket_line ok st r)) = shadow_buffer_height st"
  by (simp_all add: write_socket_line_def)

lemma cache_reply_checked [simp]:
  "tb_calls (snd (reply_checked env st r m)) = tb_calls st"
  "shadow_buffer (snd (reply_checked env st r m)) = shadow_buffer st"
  "shadow_buffer_width (snd (reply_checked env st r m)) = shadow_buffer_width st"
  "shadow_buffer_height (snd (reply_checked env st r m)) = shadow_buffer_height st"
  by (simp_all add: reply_checked_def write_socket_line_def)

lemma cache_reply_unchecked [simp]:
  "tb_calls (snd (reply_unchecked env st r)) = tb_calls st"
  "shadow_buffer (snd (reply_unchecked env st r)) = shadow_buffer st"
  "shadow_buffer_width (snd (reply_unchecked env st r)) = shadow_buffer_width st"
  "shadow_buffer_height (snd (reply_unchecked env st r)) = shadow_buffer_height st"
  by (simp_all add: reply_unchecked_def)

lemma cache_send_event [simp]:
  "tb_calls (send_event_to_client ok st ev) = tb_calls st"
  "shadow_buffer (send_event_to_client ok st ev) = shadow_buffer st"
  "shadow_buffer_width (send_event_to_client ok st ev) = shadow_buffer_width st"
  "shadow_buffer_height (send_event_to_client ok st ev) = shadow_buffer_height st"
  by (simp_all add: send_event_to_client_def write_socket_line_def)

lemma keeps_reply_checked: "keeps tb W H x y st st1 \<Longrightarrow> keeps tb W H x y st (snd (reply_checked env st1 r m))"
  by (erule keeps_trans) (simp add: keeps_same)

lemma keeps_reply_unchecked: "keeps tb W H x y st (snd (reply_unchecked env st r))"
  by (simp add: keeps_same)

lemma cell_index_inj:
  fixes x y x' y' w :: int
  assumes "0 \<le> x" "x < w" "0 \<le> x'" "x' < w" "0 \<le> y" "0 \<le> y'"
    and eq: "nat (y' * w + x') = nat (y * w + x)"
  shows "x' = x \<and> y' = y"
proof -
  have "0 \<le> y' * w + x'" "0 \<le> y * w + x"
    using assms by simp_all
  with eq have e: "y' * w + x' = y * w + x"
    by simp
  have "(y' * w + x') div w = y'" "(y * w + x) div w = y"
    using assms by simp_all
  with e have "y' = y"
    by simp
  with e show ?thesis
    by simp
qed

lemma keeps_paint:
  "keeps tb W H x y st
     (shadow_buffer_store (tb_change_cell st x' y' c f b) x' y' \<lparr>ch = c, fg = f, bg = b\<rparr>)"
proof -
  let ?st' = "shadow_buffer_store (tb_change_cell st x' y' c f b) x' y' \<lparr>ch = c, fg = f, bg = b\<rparr>"
  have calls: "tb_calls ?st' = tb_calls st @ [Tb_change_cell x' y' c f b]"
    by (simp add: shadow_buffer_store_def tb_change_cell_def split: option.splits)
  have dims: "shadow_buffer_width ?st' = shadow_buffer_width st"
      "shadow_buffer_height ?st' = shadow_buffer_height st"
    by (simp_all add: shadow_buffer_store_def tb_change_cell_def split: option.splits)
  have size: "sized W H st \<Longrightarrow> sized W H ?st'"
    by (auto simp: sized_def shadow_buffer_store_def tb_change_cell_def split: option.splits)
  have cell: "cell_at ?st' x y = cell_at st x y" if "\<not> (x' = x \<and> y' = y)"
  proof (cases "shadow_buffer st")
    case None
    then show ?thesis
      by (simp add: cell_at_def shadow_buffer_store_def tb_change_cell_def)
  next
    case (Some cells)
    show ?thesis
    proof (cases "x < 0 \<or> x \<ge> shadow_buffer_width st \<or> y < 0 \<or> y \<ge> shadow_buffer_height st")
      case True
      then show ?thesis
        using Some dims by (auto simp: cell_at_def shadow_buffer_store_def tb_change_cell_def)
    next
      case inside: False
      show ?thesis
      proof (cases "x' \<ge> 0 \<and> x' < shadow_buffer_width st \<and> y' \<ge> 0 \<and> y' < shadow_buffer_height st")
        case False
        then show ?thesis
          using Some by (auto simp: cell_at_def shadow_buffer_store_def tb_change_cell_def)
      next
        case True
        with inside that have "nat (y' * shadow_buffer_width st + x') \<noteq> nat (y * shadow_buffer_width st + x)"
          using cell_index_inj [of x "shadow_buffer_width st" x' y y'] by auto
        then show ?thesis
          using Some True inside
          by (simp add: cell_at_def shadow_buffer_store_def tb_change_cell_def)
      qed
    qed
  qed
  show ?thesis
    unfolding keeps_def using calls size cell by (intro exI [of _ "[Tb_change_cell x' y' c f b]"]) auto
qed

lemma keeps_print_loop:
  assumes "print_loop tb st text_ptr cx y' f b = Some st'"
  shows "keeps tb W H x y st st'"
  using assms
proof (rule print_loop_steps [where P = "keeps tb W H x y"])
  show "keeps tb W H x y s s" for s
    by (rule keeps_refl)
  show "keeps tb W H x y s s'"
    if "keeps tb W H x y (shadow_buffer_store (tb_change_cell s cx cy cp cf cb) cx cy
           \<lparr>ch = cp, fg = cf, bg = cb\<rparr>) s'" for s cx cy cp cf cb s'
    using keeps_paint that by (rule keeps_trans)
qed

lemma keeps_clear:
  "keeps tb W H x y st (snd (clear_branch tb env st args))"
proof (cases "length args = 1")
  case False
  then show ?thesis
    by (simp add: clear_branch_def keeps_reply_unchecked)
next
  case True
  let ?st1 = "st\<lparr>tb_calls := tb_calls st @ [Tb_clear]\<rparr>"
  let ?st2 = "(case shadow_buffer ?st1 of
                     None \<Rightarrow> ?st1
                   | Some cells \<Rightarrow>
                       if shadow_buffer_width ?st1 > 0 \<and> shadow_buffer_height ?st1 > 0
                       then ?st1\<lparr>shadow_buffer :=
                              Some (fill_cells (default_cell tb) (nat (shadow_buffer_width ?st1))
                                      (nat (shadow_buffer_height ?st1)) cells)\<rparr>
                       else ?st1)"
  have "keeps tb W H x y st ?st2"
  proof (cases "shadow_buffer st")
    case None
    then show ?thesis
      by (simp add: keeps_call)
  next
    case (Some cells)
    show ?thesis
    proof (cases "shadow_buffer_width st > 0 \<and> shadow_buffer_height st > 0")
      case False
      with Some show ?thesis
        by (auto simp: keeps_call)
    next
      case pos: True
      have st2: "?st2 = st\<lparr>tb_calls := tb_calls st @ [Tb_clear],
          shadow_buffer := Some (fill_cells (default_cell tb) (nat (shadow_buffer_width st))
                                      (nat (shadow_buffer_height st)) cells)\<rparr>"
        using Some pos by simp
      have filled: "fill_cells (default_cell tb) (nat W) (nat H) cells
          = replicate (nat W * nat H) (default_cell tb)" if "length cells = nat W * nat H"
        using that by (rule fill_cells_all)
      have inb: "nat (y * W + x) < nat W * nat H" if "0 \<le> x" "x < W" "0 \<le> y" "y < H"
        using that by (rule cell_index_bound)
      show ?thesis
        unfolding st2 keeps_def
        using Some inb
        by (intro exI [of _ "[Tb_clear]"]) (auto simp: sized_def cell_at_def filled)
    qed
  qed
  then have "keeps tb W H x y st (snd (reply_checked env ?st2 ''OK'' ''Error writing OK response for clear''))"
    by (rule keeps_reply_checked)
  with True show ?thesis
    by (simp add: clear_branch_def Let_def)
qed

lemma keeps_branches:
  "keeps tb W H x y st (snd (present_branch env st args))"
  "keeps tb W H x y st (snd (change_cell_branch env st args))"
  "keeps tb W H x y st (snd (get_cell_branch tb env st args))"
  "keeps tb W H x y st (snd (width_branch env st args))"
  "keeps tb W H x y st (snd (height_branch env st args))"
  "keeps tb W H x y st (snd (set_cursor_branch env st args))"
  "keeps tb W H x y st (snd (set_input_mode_branch env st args))"
  "keeps tb W H x y st (snd (set_output_mode_branch env st args))"
  "keeps tb W H x y st (snd (set_clear_attributes_branch env st args))"
  "keeps tb W H x y st (snd (debug_send_event_branch env st args))"
  unfolding present_branch_def change_cell_branch_def
    get_cell_branch_def width_branch_def height_branch_def set_cursor_branch_def
    set_input_mode_branch_def set_output_mode_branch_def set_clear_attributes_branch_def
    debug_send_event_branch_def Let_def
  by (auto split: option.splits
      intro!: keeps_reply_checked keeps_reply_unchecked keeps_paint keeps_refl
      intro: keeps_same keeps_call)

lemma keeps_pair:
  "f = (r, st') \<Longrightarrow> keeps tb W H x y st (snd f) \<Longrightarrow> keeps tb W H x y st st'"
  by simp

lemma keeps_print:
  assumes "print_branch tb env st args = Some (r, st')"
  shows "keeps tb W H x y st st'"
proof (cases "length args \<ge> 6")
  case False
  with assms show ?thesis
    by (auto simp: print_branch_def intro: keeps_pair [OF _ keeps_reply_unchecked])
next
  case True
  show ?thesis
  proof (cases "join_text [] True (drop 5 args)")
    case None
    with assms True show ?thesis
      by (auto simp: print_branch_def Let_def intro: keeps_pair [OF _ keeps_reply_unchecked])
  next
    case (Some text_buffer)
    with assms True obtain st1 where
      loop: "print_loop tb st text_buffer (atoi (args ! 1)) (atoi (args ! 2))
               (word_of_int (atoi (args ! 3))) (word_of_int (atoi (args ! 4))) = Some st1"
      and res: "(r, st') = reply_checked env st1 ''OK'' ''Error writing OK response for print''"
      by (auto simp: print_branch_def Let_def split: option.splits)
    have "keeps tb W H x y st st1"
      using loop by (rule keeps_print_loop)
    then have "keeps tb W H x y st (snd (reply_checked env st1 ''OK'' ''Error writing OK response for print''))"
      by (rule keeps_reply_checked)
    with res show ?thesis
      by (metis snd_conv)
  qed
qed

lemma keeps_handle:
  assumes "handle_client_command tb env st line = Some (r, st')"
  shows "keeps tb W H x y st st'"
proof -
  have pair: "f = (r, st') \<Longrightarrow> keeps tb W H x y st (snd f) \<Longrightarrow> keeps tb W H x y st st'" for f
    by simp
  have shut: "keeps tb W H x y st (snd (write_socket_line (write_ok env) st ''OK''))"
    by (simp add: keeps_same)
  have same: "keeps tb W H x y s s" for s
    by (rule keeps_refl)
  from assms show ?thesis
    unfolding handle_client_command_def Let_def
    by (auto split: if_splits
        intro: same shut keeps_print
          pair [OF _ keeps_reply_unchecked] pair [OF _ keeps_clear]
          pair [OF _ keeps_branches(1)] pair [OF _ keeps_branches(2)]
          pair [OF _ keeps_branches(3)] pair [OF _ keeps_branches(4)]
          pair [OF _ keeps_branches(5)] pair [OF _ keeps_branches(6)]
          pair [OF _ keeps_branches(7)] pair [OF _ keeps_branches(8)]
          pair [OF _ keeps_branches(9)] pair [OF _ keeps_branches(10)])
qed

lemma keeps_dispatch_lines:
  "dispatch_lines tb envs k st ls = Some (st', status) \<Longrightarrow> keeps tb W H x y st st'"
proof (induction ls arbitrary: k st)
  case Nil
  then show ?case by (simp add: keeps_refl)
next
  case (Cons l ls)
  show ?case
  proof (cases "handle_client_command tb (envs k) st l")
    case None
    with Cons.prems show ?thesis by simp
  next
    case (Some res)
    obtain r st1 where res: "res = (r, st1)"
      by (cases res)
    have first: "keeps tb W H x y st st1"
      using Some res by (auto dest: keeps_handle)
    show ?thesis
    proof (cases "r = 1 \<or> r < 0")
      case True
      with Cons.prems Some res first show ?thesis
        by (auto split: if_splits)
    next
      case False
      with Cons.prems Some res have "dispatch_lines tb envs (Suc k) st1 ls = Some (st', status)"
        by simp
      then have "keeps tb W H x y st1 st'"
        by (rule Cons.IH)
      with first show ?thesis
        by (rule keeps_trans)
    qed
  qed
qed

lemma get_cell_branch_outside:
  assumes x: "- (2 ^ 31) \<le> x" "x < 2 ^ 31" and y: "- (2 ^ 31) \<le> y" "y < 2 ^ 31"
    and out: "shadow_buffer st = None \<or>
      x < 0 \<or> x \<ge> shadow_buffer_width st \<or> y < 0 \<or> y \<ge> shadow_buffer_height st"
  shows "handle_client_command tb env st (command_line [''get_cell'', show_int x, show_int y]) =
     Some (0, st\<lparr>sock_writes := sock_writes st @ [(''ERROR invalid_coords_get_cell'', write_ok env)]\<rparr>)"
proof -
  have ax: "atoi (show_int x) = x" and ay: "atoi (show_int y) = y"
    using x y by (simp_all add: atoi_show_int)
  have "get_cell_branch tb env st [''get_cell'', show_int x, show_int y] =
      reply_unchecked env st ''ERROR invalid_coords_get_cell''"
    using out by (auto simp: get_cell_branch_def ax ay Let_def split: option.splits)
  then show ?thesis
    by (simp only: handle_get_cell [OF plain_show_int plain_show_int])
      (simp add: reply_unchecked_plain)
qed

lemma get_cell_default:
  assumes size: "sized W H st" and cell: "cell_at st x y = Some (default_cell tb)"
    and W: "W < 2 ^ 31" and H: "H < 2 ^ 31"
  shows "\<exists>st2. handle_client_command tb env st (command_line [''get_cell'', show_int x, show_int y]) =
        Some (if write_ok env then 0 else 1, st2)
    \<and> sock_writes st2 = sock_writes st @
         [(''OK_CELL '' @ show_int x @ '' '' @ show_int y @ '' '' @ cell_text tb 32 @ '' '' @
           show_nat (unat (TB_DEFAULT tb)) @ '' '' @ show_nat (unat (TB_DEFAULT tb)), write_ok env)]"
proof -
  from size obtain cells where buf: "shadow_buffer st = Some cells"
    and w: "shadow_buffer_width st = W" and h: "shadow_buffer_height st = H"
    by (auto simp: sized_def split: option.splits)
  from cell buf have inside: "0 \<le> x" "x < shadow_buffer_width st" "0 \<le> y" "y < shadow_buffer_height st"
    and val: "cells ! nat (y * shadow_buffer_width st + x) = \<lparr>ch = 32, fg = TB_DEFAULT tb, bg = TB_DEFAULT tb\<rparr>"
    by (auto simp: cell_at_def default_cell_def split: if_splits)
  have x31: "x < 2 ^ 31" and y31: "y < 2 ^ 31"
    using inside w h W H by simp_all
  from get_cell_branch_in_bounds [OF buf inside(1,2) x31 inside(3,4) y31 val, of tb env]
  show ?thesis
    by (simp only: handle_get_cell [OF plain_show_int plain_show_int]) auto
qed

lemma reached_trans:
  assumes "reached tb st0 st1" "reached tb st1 st2"
  shows "reached tb st0 st2"
  using assms(2,1)
  by (induction rule: reached.induct) (auto intro: reached.intros)

lemma process_lines_reached:
  "process_lines tb envs k lv = Some lv' \<Longrightarrow> reached tb (sess lv) (sess lv')"
proof (induction tb envs k lv rule: process_lines.induct)
  case (1 tb envs k lv)
  show ?case
  proof (cases "strchr_nl (socket_buffer lv)")
    case None
    with "1.prems" show ?thesis
      by (subst (asm) process_lines.simps) (auto intro: reached.start)
  next
    case (Some i)
    from "1.prems" Some obtain r st1 where
      h: "handle_client_command tb (envs k) (sess lv) (take i (socket_buffer lv)) = Some (r, st1)"
      by (subst (asm) process_lines.simps) (auto split: option.splits)
    have first: "reached tb (sess lv) st1"
      using reached.start h by (rule reached.command)
    show ?thesis
    proof (cases "r = 1 \<or> r < 0")
      case True
      with "1.prems" Some h first show ?thesis
        by (subst (asm) process_lines.simps) (auto split: if_splits)
    next
      case False
      with "1.prems" Some h have
        "process_lines tb envs (Suc k)
           (lv\<lparr>sess := st1, socket_buffer := drop (Suc i) (socket_buffer lv)\<rparr>) = Some lv'"
        by (subst (asm) process_lines.simps) simp
      from "1.IH" [OF Some h refl _ _ this] False
      have "reached tb st1 (sess lv')"
        by simp
      with first show ?thesis
        by (rule reached_trans)
    qed
  qed
qed

lemma socket_step_reached:
  assumes "socket_step tb e lv = Some lv'"
  shows "reached tb (sess lv) (sess lv')"
proof -
  have lg: "reached tb (sess lv) ((sess lv)\<lparr>stderr_out := stderr_out (sess lv) @ [l]\<rparr>)" for l
    using reached.start by (rule reached.logged)
  have lg2: "reached tb (sess lv)
      ((sess lv)\<lparr>stderr_out := stderr_out (sess lv) @ [l, m]\<rparr>)" for l m
    using reached.logged [OF lg [of l], of m] by simp
  from assms show ?thesis
    by (auto simp: socket_step_def Let_def
        split: if_splits option.splits read_result.splits
        intro: reached.start lg lg2 dest!: process_lines_reached
        elim: reached_trans [OF lg])
qed

lemma event_step_reached:
  assumes "event_step tb e st = Some st'"
    and "\<not> (0 < peek_ret e \<and> ev_type (peek_event e) = TB_EVENT_RESIZE tb)"
  shows "reached tb st st'"
  using reached.start assms by (rule reached.event)

lemma loop_body_reached:
  assumes "loop_body tb e lv = Some lv'"
    and "\<not> (0 < peek_ret e \<and> ev_type (peek_event e) = TB_EVENT_RESIZE tb)"
  shows "reached tb (sess lv) (sess lv')"
proof -
  from assms(1) obtain st where ev: "event_step tb e (sess lv) = Some st"
    and so: "socket_step tb e (lv\<lparr>sess := st\<rparr>) = Some lv'"
    by (auto simp: loop_body_def split: option.splits)
  have "reached tb (sess lv) st"
    using ev assms(2) by (rule event_step_reached)
  moreover have "reached tb st (sess lv')"
    using socket_step_reached [OF so] by simp
  ultimately show ?thesis
    by (rule reached_trans)
qed

lemma iterate_reached:
  assumes "iterate tb lv es = Some lv'"
    and "list_all (\<lambda>e. \<not> (0 < peek_ret e \<and> ev_type (peek_event e) = TB_EVENT_RESIZE tb)) es"
  shows "reached tb (sess lv) (sess lv')"
  using assms
proof (induction es arbitrary: lv)
  case Nil
  then show ?case by (auto intro: reached.start)
next
  case (Cons e es)
  show ?case
  proof (cases "keep_running lv")
    case False
    with Cons.prems show ?thesis
      by (auto intro: reached.start)
  next
    case True
    with Cons.prems obtain lv1 where b: "loop_body tb e lv = Some lv1"
      and r: "iterate tb lv1 es = Some lv'"
      by (auto split: option.splits)
    have ne: "\<not> (0 < peek_ret e \<and> ev_type (peek_event e) = TB_EVENT_RESIZE tb)"
      and rest: "list_all (\<lambda>e. \<not> (0 < peek_ret e \<and> ev_type (peek_event e) = TB_EVENT_RESIZE tb)) es"
      using Cons.prems(2) by simp_all
    have "reached tb (sess lv) (sess lv1)"
      using b ne by (rule loop_body_reached)
    moreover have "reached tb (sess lv1) (sess lv')"
      using r rest by (rule Cons.IH)
    ultimately show ?thesis
      by (rule reached_trans)
  qed
qed

lemma dispatch_lines_reached:
  "dispatch_lines tb envs k st ls = Some (st', status) \<Longrightarrow> reached tb st st'"
proof (induction ls arbitrary: k st)
  case Nil
  then show ?case by (auto intro: reached.start)
next
  case (Cons l ls)
  show ?case
  proof (cases "handle_client_command tb (envs k) st l")
    case None
    with Cons.prems show ?thesis by simp
  next
    case (Some res)
    obtain r st1 where res: "res = (r, st1)"
      by (cases res)
    have first: "reached tb st st1"
      using reached.start Some [unfolded res] by (rule reached.command)
    show ?thesis
    proof (cases "r = 1 \<or> r < 0")
      case True
      with Cons.prems Some res first show ?thesis
        by (auto split: if_splits)
    next
      case False
      with Cons.prems Some res have "dispatch_lines tb envs (Suc k) st1 ls = Some (st', status)"
        by simp
      then have "reached tb st1 st'"
        by (rule Cons.IH)
      with first show ?thesis
        by (rule reached_trans)
    qed
  qed
qed

lemma keeps_event_step:
  assumes "event_step tb e st = Some st'"
    and "\<not> (0 < peek_ret e \<and> ev_type (peek_event e) = TB_EVENT_RESIZE tb)"
  shows "keeps tb W H x y st st'"
  using assms
  by (auto simp: event_step_def Let_def split: if_splits intro!: keeps_call)

lemma keeps_reached:
  "reached tb st0 st1 \<Longrightarrow> keeps tb W H x y st0 st1"
proof (induction rule: reached.induct)
  case start
  show ?case by (rule keeps_refl)
next
  case (command st env line r st')
  from command.IH keeps_handle [OF command.hyps(2)] show ?case
    by (rule keeps_trans)
next
  case (event st e st')
  from event.IH keeps_event_step [OF event.hyps(2,3)] show ?case
    by (rule keeps_trans)
next
  case (logged st l)
  have "keeps tb W H x y st (st\<lparr>stderr_out := stderr_out st @ [l]\<rparr>)"
    by (simp add: keeps_same)
  with logged.IH show ?case
    by (rule keeps_trans)
qed

lemma show_int_small: "show_int 0 = ''0''" "show_int 1 = ''1''" "show_int 3 = ''3''"
  by (simp_all add: show_int_def show_nat.simps char_of_eq_iff)

lemma cell_text_space: "cell_text utf8_termbox 32 = '' ''"
  by (simp add: cell_text_def utf8_termbox_def utf8_encode_def c_str_def char_of_eq_iff)

lemma get_cell_iteration_empty:
  assumes "keep_running lv" "socket_buffer lv = []" "shadow_buffer (sess lv) = None"
  shows "loop_body utf8_termbox (incoming (wire [''get_cell 0 0''])) lv =
     Some (lv\<lparr>sess := (sess lv)\<lparr>tb_calls := tb_calls (sess lv) @ [Tb_peek_event 10],
                                sock_writes := sock_writes (sess lv) @
                                  [(''ERROR invalid_coords_get_cell'', True)]\<rparr>,
              socket_buffer := []\<rparr>)"
proof -
  let ?e = "incoming (wire [''get_cell 0 0''])"
  let ?st0 = "(sess lv)\<lparr>tb_calls := tb_calls (sess lv) @ [Tb_peek_event 10]\<rparr>"
  have ev: "event_step utf8_termbox ?e (sess lv) = Some ?st0"
    by (simp add: event_step_def Let_def incoming_def idle_iter_def)
  have sel: "0 < select_ret ?e" "fd_isset ?e"
    by (simp_all add: incoming_def idle_iter_def)
  have rd: "read_ret ?e = Read_bytes (wire [''get_cell 0 0''])"
    by (simp add: incoming_def idle_iter_def)
  have ne: "wire [''get_cell 0 0''] \<noteq> []"
    by (simp add: wire_def)
  have room: "length (socket_buffer lv) + length (wire [''get_cell 0 0'']) < SOCKET_BUFFER_SIZE"
    by (simp add: assms wire_def SOCKET_BUFFER_SIZE_def)
  have buf: "socket_buffer lv @ wire [''get_cell 0 0''] = wire [''get_cell 0 0''] @ []"
    by (simp add: assms)
  have lns: "list_all text_line [''get_cell 0 0'']" "CHR 0x0A \<notin> set []"
    by (simp_all add: text_line_def)
  have env: "cmd_envs ?e 0 = quiet_env"
    by (simp add: incoming_def idle_iter_def)
  have "handle_client_command utf8_termbox quiet_env ?st0
          (command_line [''get_cell'', show_int 0, show_int 0]) =
     Some (0, ?st0\<lparr>sock_writes := sock_writes ?st0 @
                     [(''ERROR invalid_coords_get_cell'', write_ok quiet_env)]\<rparr>)"
    by (rule get_cell_branch_outside) (simp_all add: assms)
  then have h: "handle_client_command utf8_termbox quiet_env ?st0 ''get_cell 0 0'' =
     Some (0, ?st0\<lparr>sock_writes := sock_writes ?st0 @ [(''ERROR invalid_coords_get_cell'', True)]\<rparr>)"
    by (simp add: show_int_small quiet_env_def)
  from loop_body_lines [OF ev sel rd ne room buf lns assms(1)]
  show ?thesis
    by (auto simp: env h SOCKET_BUFFER_SIZE_def)
qed

text \<open>
  Claim C2 (resize invalidation).  Let a resize event to \<open>W\<close> by \<open>H\<close>, both positive, be
  pending, the byte count of the new cache fit \<^verbatim>\<open>size_t\<close> and the allocator give the block.
  Then step 1 of the iteration resizes the cache to \<open>W\<close> by \<open>H\<close> default cells first and
  sends the event line from the resized session.  In every session reached from there
  without another resize (through command lines of this or later iterations, events
  that are not resizes, logged errors), \<^verbatim>\<open>get_cell x y\<close> answers the default cell, space
  with the default attributes, for every \<open>(x, y)\<close> inside \<open>W\<close> by \<open>H\<close> for which no
  \<^verbatim>\<open>tb_change_cell\<close> was called since, and \<^verbatim>\<open>ERROR invalid_coords_get_cell\<close> for every
  \<open>(x, y)\<close> outside.
\<close>

theorem resize_then_get_cell:
  assumes pend: "0 < peek_ret e"
    and kind: "ev_type (peek_event e) = TB_EVENT_RESIZE tb"
    and W: "ev_w (peek_event e) = W" "0 < W" "W < 2 ^ 31"
    and H: "ev_h (peek_event e) = H" "0 < H" "H < 2 ^ 31"
    and fits: "nat W * nat H * sizeof_tb_cell < 2 ^ 64"
    and mem: "malloc_ret e (nat W * nat H * sizeof_tb_cell) \<noteq> None"
    and ev: "event_step tb e st = Some st0"
    and later: "reached tb st0 st1"
    and x: "- (2 ^ 31) \<le> x" "x < 2 ^ 31" and y: "- (2 ^ 31) \<le> y" "y < 2 ^ 31"
  shows "st0 = send_event_to_client (event_write_ok e)
             (st\<lparr>tb_calls := tb_calls st @ [Tb_peek_event 10],
                 shadow_buffer := Some (replicate (nat W * nat H) (default_cell tb)),
                 shadow_buffer_width := W, shadow_buffer_height := H\<rparr>) (peek_event e)
    \<and> (0 \<le> x \<and> x < W \<and> 0 \<le> y \<and> y < H
         \<and> \<not> paints x y (drop (length (tb_calls st0)) (tb_calls st1)) \<longrightarrow>
        (\<exists>st2. handle_client_command tb env st1 (command_line [''get_cell'', show_int x, show_int y]) =
             Some (if write_ok env then 0 else 1, st2)
          \<and> sock_writes st2 = sock_writes st1 @
               [(''OK_CELL '' @ show_int x @ '' '' @ show_int y @ '' '' @ cell_text tb 32 @ '' '' @
                 show_nat (unat (TB_DEFAULT tb)) @ '' '' @ show_nat (unat (TB_DEFAULT tb)),
                 write_ok env)]))
    \<and> (\<not> (0 \<le> x \<and> x < W \<and> 0 \<le> y \<and> y < H) \<longrightarrow>
        handle_client_command tb env st1 (command_line [''get_cell'', show_int x, show_int y]) =
          Some (0, st1\<lparr>sock_writes := sock_writes st1 @
                        [(''ERROR invalid_coords_get_cell'', write_ok env)]\<rparr>))"
proof -
  let ?resized = "st\<lparr>tb_calls := tb_calls st @ [Tb_peek_event 10],
                 shadow_buffer := Some (replicate (nat W * nat H) (default_cell tb)),
                 shadow_buffer_width := W, shadow_buffer_height := H\<rparr>"
  have fits': "W \<le> 0 \<or> H \<le> 0 \<or> nat W * nat H * sizeof_tb_cell < 2 ^ 64"
    using fits by simp
  have st0: "st0 = send_event_to_client (event_write_ok e) ?resized (peek_event e)"
    using ev pend kind W H mem
    by (auto simp: event_step_def Let_def update_shadow_buffer_size_eq [OF fits']
        split: option.splits)
  have size0: "sized W H st0"
    unfolding st0 by (simp add: sized_def)
  have cell0: "cell_at st0 x y = Some (default_cell tb)" if "0 \<le> x" "x < W" "0 \<le> y" "y < H"
    unfolding st0 using that cell_index_bound [OF that]
    by (simp add: cell_at_def)
  from keeps_reached [OF later, of W H x y] obtain cs where
    cs: "tb_calls st1 = tb_calls st0 @ cs"
    and kept: "sized W H st0 \<longrightarrow> sized W H st1 \<and>
           (cell_at st0 x y = Some (default_cell tb) \<and> \<not> paints x y cs \<longrightarrow>
              cell_at st1 x y = Some (default_cell tb))"
    unfolding keeps_def by blast
  have drop: "drop (length (tb_calls st0)) (tb_calls st1) = cs"
    by (simp add: cs)
  have size1: "sized W H st1"
    using kept size0 by simp
  show ?thesis
  proof (intro conjI impI)
    show "st0 = send_event_to_client (event_write_ok e) ?resized (peek_event e)"
      by (rule st0)
  next
    assume a: "0 \<le> x \<and> x < W \<and> 0 \<le> y \<and> y < H
         \<and> \<not> paints x y (drop (length (tb_calls st0)) (tb_calls st1))"
    then have "cell_at st1 x y = Some (default_cell tb)"
      using kept size0 cell0 unfolding drop by simp
    with size1 show "\<exists>st2. handle_client_command tb env st1 (command_line [''get_cell'', show_int x, show_int y]) =
             Some (if write_ok env then 0 else 1, st2)
          \<and> sock_writes st2 = sock_writes st1 @
               [(''OK_CELL '' @ show_int x @ '' '' @ show_int y @ '' '' @ cell_text tb 32 @ '' '' @
                 show_nat (unat (TB_DEFAULT tb)) @ '' '' @ show_nat (unat (TB_DEFAULT tb)),
                 write_ok env)]"
      using W(3) H(3) by (rule get_cell_default)
  next
    assume "\<not> (0 \<le> x \<and> x < W \<and> 0 \<le> y \<and> y < H)"
    with size1 have "shadow_buffer st1 = None \<or>
      x < 0 \<or> x \<ge> shadow_buffer_width st1 \<or> y < 0 \<or> y \<ge> shadow_buffer_height st1"
      by (auto simp: sized_def)
    with x y show "handle_client_command tb env st1 (command_line [''get_cell'', show_int x, show_int y]) =
          Some (0, st1\<lparr>sock_writes := sock_writes st1 @
                        [(''ERROR invalid_coords_get_cell'', write_ok env)]\<rparr>)"
      by (rule get_cell_branch_outside)
  qed
qed

theorem resize_then_get_cell_witness:
  "event_step utf8_termbox (pending (resize_event 3 2)) initial_session =
     Some (send_event_to_client True (small_session\<lparr>tb_calls := [Tb_peek_event 10]\<rparr>)
             (resize_event 3 2))
   \<and> (\<exists>st1 st2.
        dispatch_lines utf8_termbox (cmd_envs idle_iter) 0
          (send_event_to_client True (small_session\<lparr>tb_calls := [Tb_peek_event 10]\<rparr>)
             (resize_event 3 2)) [''present''] = Some (st1, None)
      \<and> handle_client_command utf8_termbox quiet_env st1 ''get_cell 1 1'' = Some (0, st2)
      \<and> sock_writes st2 =
           [(format_event (resize_event 3 2), True), (''OK'', True), (''OK_CELL 1 1   0 0'', True)]
      \<and> handle_client_command utf8_termbox quiet_env st1 ''get_cell 3 0'' =
           Some (0, st1\<lparr>sock_writes := sock_writes st1 @
                         [(''ERROR invalid_coords_get_cell'', True)]\<rparr>))"
proof -
  let ?e = "pending (resize_event 3 2)"
  let ?st0 = "send_event_to_client True (small_session\<lparr>tb_calls := [Tb_peek_event 10]\<rparr>)
             (resize_event 3 2)"
  let ?st1 = "?st0\<lparr>tb_calls := tb_calls ?st0 @ [Tb_present],
                   sock_writes := sock_writes ?st0 @ [(''OK'', True)]\<rparr>"
  have pend: "0 < peek_ret ?e"
    by (simp add: pending_def)
  have kind: "ev_type (peek_event ?e) = TB_EVENT_RESIZE utf8_termbox"
    by (simp add: pending_def resize_event_def utf8_termbox_def)
  have W: "ev_w (peek_event ?e) = 3" "(0::int) < 3" "(3::int) < 2 ^ 31"
    by (simp_all add: pending_def resize_event_def)
  have H: "ev_h (peek_event ?e) = 2" "(0::int) < 2" "(2::int) < 2 ^ 31"
    by (simp_all add: pending_def resize_event_def)
  have fits: "nat 3 * nat 2 * sizeof_tb_cell < 2 ^ 64"
    by (simp add: sizeof_tb_cell_def)
  have fits': "(3::int) \<le> 0 \<or> (2::int) \<le> 0 \<or> nat 3 * nat 2 * sizeof_tb_cell < 2 ^ 64"
    by (simp add: sizeof_tb_cell_def)
  have mem: "malloc_ret ?e (nat 3 * nat 2 * sizeof_tb_cell) \<noteq> None"
    by (simp add: pending_def idle_iter_def)
  have six: "replicate (nat 3 * nat 2) d = replicate 6 d" for d :: tb_cell
    by simp
  have ev: "event_step utf8_termbox ?e initial_session = Some ?st0"
    using pend kind W(1) H(1) mem
    by (simp add: event_step_def Let_def update_shadow_buffer_size_eq [OF fits'] six
        small_session_def initial_session_def pending_def idle_iter_def split: option.splits)
  have d: "dispatch_lines utf8_termbox (cmd_envs idle_iter) 0 ?st0 [''present''] = Some (?st1, None)"
    by (simp add: present_accepted idle_iter_def)
  then have r: "reached utf8_termbox ?st0 ?st1"
    by (rule dispatch_lines_reached)
  have calls: "drop (length (tb_calls ?st0)) (tb_calls ?st1) = [Tb_present]"
    by simp
  have w0: "sock_writes ?st1 = [(format_event (resize_event 3 2), True), (''OK'', True)]"
    by (simp add: send_event_to_client_def write_socket_line_def format_event_plain
        small_session_def initial_session_def)
  have one: "- (2 ^ 31) \<le> (1::int)" "(1::int) < 2 ^ 31"
    and three: "- (2 ^ 31) \<le> (3::int)" "(3::int) < 2 ^ 31"
    and zero: "- (2 ^ 31) \<le> (0::int)" "(0::int) < 2 ^ 31"
    by simp_all
  have tbd: "TB_DEFAULT utf8_termbox = 0" and wq: "write_ok quiet_env"
    by (simp_all add: utf8_termbox_def quiet_env_def)
  have inside: "(0::int) \<le> 1 \<and> (1::int) < 3 \<and> (0::int) \<le> 1 \<and> (1::int) < 2
      \<and> \<not> paints 1 1 (drop (length (tb_calls ?st0)) (tb_calls ?st1))"
    unfolding calls by simp
  have outside: "\<not> ((0::int) \<le> 3 \<and> (3::int) < 3 \<and> (0::int) \<le> 0 \<and> (0::int) < 2)"
    by simp
  from resize_then_get_cell [OF pend kind W H fits mem ev r one one, of quiet_env] inside
  have "\<exists>st2. handle_client_command utf8_termbox quiet_env ?st1
             (command_line [''get_cell'', show_int 1, show_int 1]) =
             Some (if write_ok quiet_env then 0 else 1, st2)
          \<and> sock_writes st2 = sock_writes ?st1 @
               [(''OK_CELL '' @ show_int 1 @ '' '' @ show_int 1 @ '' '' @ cell_text utf8_termbox 32 @ '' '' @
                 show_nat (unat (TB_DEFAULT utf8_termbox)) @ '' '' @
                 show_nat (unat (TB_DEFAULT utf8_termbox)), write_ok quiet_env)]"
    by blast
  then obtain st2 where
    "handle_client_command utf8_termbox quiet_env ?st1 ''get_cell 1 1'' = Some (0, st2)"
    "sock_writes st2 = sock_writes ?st1 @ [(''OK_CELL 1 1   0 0'', True)]"
    by (auto simp: show_int_small cell_text_space tbd wq show_nat_examples)
  moreover
  from resize_then_get_cell [OF pend kind W H fits mem ev r three zero, of quiet_env] outside
  have "handle_client_command utf8_termbox quiet_env ?st1
          (command_line [''get_cell'', show_int 3, show_int 0]) =
           Some (0, ?st1\<lparr>sock_writes := sock_writes ?st1 @
                         [(''ERROR invalid_coords_get_cell'', write_ok quiet_env)]\<rparr>)"
    by blast
  then have "handle_client_command utf8_termbox quiet_env ?st1 ''get_cell 3 0'' =
           Some (0, ?st1\<lparr>sock_writes := sock_writes ?st1 @
                         [(''ERROR invalid_coords_get_cell'', True)]\<rparr>)"
    by (simp add: show_int_small wq)
  ultimately show ?thesis
    using ev d w0 by (intro conjI exI [of _ ?st1] exI [of _ st2]) simp_all
qed

text \<open>
  When the allocator has no memory for the new cache, \<^verbatim>\<open>get_cell 0 0\<close> after a resize to
  3 by 2 is answered with the error and not with the default cell.
\<close>

theorem resize_no_memory_get_cell_counterexample:
  "map_option (sock_writes \<circ> sess)
     (iterate utf8_termbox (serving (good_boot []))
        [pending_no_memory (resize_event 3 2), incoming (wire [''get_cell 0 0''])])
     = Some [(format_event (resize_event 3 2), True), (''ERROR invalid_coords_get_cell'', True)]"
  by (simp add: resize_iteration_no_memory get_cell_iteration_empty serving_fresh)

subsection \<open>Printing\<close>

declare decode_text.simps [simp del]

lemma paint_step:
  "shadow_buffer_store (tb_change_cell st cx y cp f b) cx y \<lparr>ch = cp, fg = f, bg = b\<rparr> =
     st\<lparr>tb_calls := tb_calls st @ [Tb_change_cell cx y cp f b],
        shadow_buffer :=
          (if cx < 0 \<or> cx \<ge> shadow_buffer_width st \<or> y < 0 \<or> y \<ge> shadow_buffer_height st
           then shadow_buffer st
           else map_option
                  (\<lambda>cells. cells[nat (y * shadow_buffer_width st + cx) := \<lparr>ch = cp, fg = f, bg = b\<rparr>])
                  (shadow_buffer st))\<rparr>"
  by (auto simp: shadow_buffer_store_def tb_change_cell_def split: option.splits)

lemma print_loop_walk:
  "decode_text tb s = Some cps \<Longrightarrow> x + int (length cps) < 2 ^ 31 \<Longrightarrow>
   print_loop tb st s x y f b = Some (print_walk st x y f b cps)"
proof (induction tb st s x y f b arbitrary: cps rule: print_loop.induct)
  case (1 tb st text_ptr current_x y f b)
  show ?case
  proof (cases "text_ptr = []")
    case True
    with "1.prems" show ?thesis
      by (subst print_loop.simps) (simp add: decode_text.simps)
  next
    case False
    obtain n cp where dec: "tb_utf8_char_to_unicode tb text_ptr = (n, cp)"
      by (cases "tb_utf8_char_to_unicode tb text_ptr")
    show ?thesis
    proof (cases "cp = 0")
      case True
      with "1.prems" False dec show ?thesis
        by (subst print_loop.simps) (simp add: decode_text.simps [of tb text_ptr])
    next
      case nz: False
      from "1.prems"(1) False dec nz obtain rest where
        pos: "\<not> n \<le> 0" and cps: "cps = cp # rest"
        and more: "decode_text tb (drop (nat n) text_ptr) = Some rest"
        by (subst (asm) decode_text.simps) (auto split: if_splits)
      from "1.prems"(2) cps have room: "\<not> current_x \<ge> 2147483647"
        and next_room: "current_x + 1 + int (length rest) < 2 ^ 31"
        by simp_all
      have "print_loop tb
              (shadow_buffer_store (tb_change_cell st current_x y cp f b) current_x y
                 \<lparr>ch = cp, fg = f, bg = b\<rparr>) (drop (nat n) text_ptr) (current_x + 1) y f b
            = Some (print_walk
              (shadow_buffer_store (tb_change_cell st current_x y cp f b) current_x y
                 \<lparr>ch = cp, fg = f, bg = b\<rparr>) (current_x + 1) y f b rest)"
        using "1.IH" [OF False dec [symmetric] nz pos room more next_room] .
      then show ?thesis
        using False dec nz pos room
        by (subst print_loop.simps) (simp add: cps paint_step)
    qed
  qed
qed

lemma join_text_more:
  "length (acc @ concat (map (\<lambda>w. CHR '' '' # w) ws)) < SOCKET_BUFFER_SIZE \<Longrightarrow>
   join_text acc False ws = Some (acc @ concat (map (\<lambda>w. CHR '' '' # w) ws))"
  by (induction ws arbitrary: acc) auto

lemma command_line_words:
  "command_line (w # ws) = w @ concat (map (\<lambda>w. CHR '' '' # w) ws)"
  by (induction ws arbitrary: w) auto

lemma join_text_words:
  assumes "ws \<noteq> []" "length (command_line ws) < SOCKET_BUFFER_SIZE"
  shows "join_text [] True ws = Some (command_line ws)"
proof -
  obtain w rest where ws: "ws = w # rest"
    using assms(1) by (cases ws) auto
  show ?thesis
    using assms(2) join_text_more [of w rest]
    unfolding ws command_line_words by simp
qed

lemma upt_0_Suc_map: "map g [0..<Suc n] = g 0 # map (\<lambda>i. g (Suc i)) [0..<n]"
proof -
  have "[0..<Suc n] = 0 # map Suc [0..<n]"
    by (simp add: upt_conv_Cons map_Suc_upt del: upt_Suc)
  then show ?thesis
    by (simp add: comp_def del: upt_Suc)
qed

lemma print_walk_calls:
  "tb_calls (print_walk st x y f b cps) =
     tb_calls st @ map (\<lambda>i. Tb_change_cell (x + int i) y (cps ! i) f b) [0..<length cps]"
proof (induction cps arbitrary: st x)
  case Nil
  show ?case by simp
next
  case (Cons cp rest)
  have shift: "x + 1 + int i = x + int (Suc i)" for i
    by simp
  show ?case
    by (simp only: print_walk.simps Cons.IH length_Cons upt_0_Suc_map shift) simp
qed

lemma print_walk_frame:
  "sock_writes (print_walk st x y f b cps) = sock_writes st"
  "stdout_out (print_walk st x y f b cps) = stdout_out st"
  "stderr_out (print_walk st x y f b cps) = stderr_out st"
  "sys_calls (print_walk st x y f b cps) = sys_calls st"
  "shadow_buffer_width (print_walk st x y f b cps) = shadow_buffer_width st"
  "shadow_buffer_height (print_walk st x y f b cps) = shadow_buffer_height st"
  by (induction cps arbitrary: st x; simp)+

lemma print_walk_no_cache:
  "shadow_buffer st = None \<Longrightarrow> shadow_buffer (print_walk st x y f b cps) = None"
  by (induction cps arbitrary: st x) simp_all

lemma print_walk_sized:
  "sized W H st \<Longrightarrow> sized W H (print_walk st x y f b cps)"
proof (induction cps arbitrary: st x)
  case Nil
  then show ?case by simp
next
  case (Cons cp rest)
  have "sized W H
     (st\<lparr>tb_calls := tb_calls st @ [Tb_change_cell x y cp f b],
         shadow_buffer :=
           (if x < 0 \<or> x \<ge> shadow_buffer_width st \<or> y < 0 \<or> y \<ge> shadow_buffer_height st
            then shadow_buffer st
            else map_option
                   (\<lambda>cells. cells[nat (y * shadow_buffer_width st + x) :=
                                    \<lparr>ch = cp, fg = f, bg = b\<rparr>])
                   (shadow_buffer st))\<rparr>)"
    using Cons.prems by (auto simp: sized_def split: option.splits)
  then show ?case
    unfolding print_walk.simps by (rule Cons.IH)
qed

lemma print_walk_cell:
  assumes "sized W H st" and "0 \<le> cx" "cx < W" "0 \<le> cy" "cy < H"
  shows "cell_at (print_walk st x y f b cps) cx cy =
     (if cy = y \<and> x \<le> cx \<and> cx < x + int (length cps)
      then Some \<lparr>ch = cps ! nat (cx - x), fg = f, bg = b\<rparr>
      else cell_at st cx cy)"
  using assms(1)
proof (induction cps arbitrary: st x)
  case Nil
  show ?case by auto
next
  case (Cons cp rest)
  let ?st1 = "st\<lparr>tb_calls := tb_calls st @ [Tb_change_cell x y cp f b],
           shadow_buffer :=
             (if x < 0 \<or> x \<ge> shadow_buffer_width st \<or> y < 0 \<or> y \<ge> shadow_buffer_height st
              then shadow_buffer st
              else map_option
                     (\<lambda>cells. cells[nat (y * shadow_buffer_width st + x) :=
                                      \<lparr>ch = cp, fg = f, bg = b\<rparr>])
                     (shadow_buffer st))\<rparr>"
  from Cons.prems obtain cells where buf: "shadow_buffer st = Some cells"
    and w: "shadow_buffer_width st = W" and h: "shadow_buffer_height st = H"
    and len: "length cells = nat W * nat H"
    by (auto simp: sized_def split: option.splits)
  have size1: "sized W H ?st1"
    using Cons.prems by (auto simp: sized_def split: option.splits)
  have inb: "nat (cy * W + cx) < length cells"
    using cell_index_bound [OF assms(2-5)] len by simp
  have old: "cell_at st cx cy = Some (cells ! nat (cy * W + cx))"
    using buf w h assms(2-5) by (simp add: cell_at_def)
  have first: "cell_at ?st1 cx cy =
      (if cx = x \<and> cy = y then Some \<lparr>ch = cp, fg = f, bg = b\<rparr> else cell_at st cx cy)"
  proof (cases "x < 0 \<or> x \<ge> W \<or> y < 0 \<or> y \<ge> H")
    case True
    then have "\<not> (cx = x \<and> cy = y)"
      using assms(2-5) by auto
    with True show ?thesis
      using buf w h assms(2-5) by (auto simp: cell_at_def)
  next
    case False
    show ?thesis
    proof (cases "cx = x \<and> cy = y")
      case True
      with False inb show ?thesis
        using buf w h assms(2-5) by (simp add: cell_at_def)
    next
      case other: False
      have "nat (y * W + x) \<noteq> nat (cy * W + cx)"
        using cell_index_inj [of cx W x cy y] False other assms(2-5) by auto
      with False show ?thesis
        using buf w h assms(2-5) other by (auto simp: cell_at_def)
    qed
  qed
  have idx: "(cp # rest) ! nat (cx - x) = rest ! nat (cx - (x + 1))" if "x + 1 \<le> cx"
  proof -
    have "nat (cx - x) = Suc (nat (cx - (x + 1)))"
      using that by simp
    then show ?thesis
      by simp
  qed
  have "cell_at (print_walk ?st1 (x + 1) y f b rest) cx cy =
     (if cy = y \<and> x + 1 \<le> cx \<and> cx < x + 1 + int (length rest)
      then Some \<lparr>ch = rest ! nat (cx - (x + 1)), fg = f, bg = b\<rparr>
      else cell_at ?st1 cx cy)"
    using size1 by (rule Cons.IH)
  then show ?case
    unfolding print_walk.simps first
    using idx by (auto simp: old)
qed

lemma get_cell_reads:
  assumes size: "sized W H st" and cell: "cell_at st x y = Some \<lparr>ch = c, fg = f, bg = b\<rparr>"
    and W: "W < 2 ^ 31" and H: "H < 2 ^ 31"
  shows "\<exists>st2. handle_client_command tb env st (command_line [''get_cell'', show_int x, show_int y]) =
        Some (if write_ok env then 0 else 1, st2)
    \<and> sock_writes st2 = sock_writes st @
         [(''OK_CELL '' @ show_int x @ '' '' @ show_int y @ '' '' @ cell_text tb c @ '' '' @
           show_nat (unat f) @ '' '' @ show_nat (unat b), write_ok env)]"
proof -
  from size obtain cells where buf: "shadow_buffer st = Some cells"
    and w: "shadow_buffer_width st = W" and h: "shadow_buffer_height st = H"
    by (auto simp: sized_def split: option.splits)
  from cell buf have inside: "0 \<le> x" "x < shadow_buffer_width st" "0 \<le> y" "y < shadow_buffer_height st"
    and val: "cells ! nat (y * shadow_buffer_width st + x) = \<lparr>ch = c, fg = f, bg = b\<rparr>"
    by (auto simp: cell_at_def split: if_splits)
  have x31: "x < 2 ^ 31" and y31: "y < 2 ^ 31"
    using inside w h W H by simp_all
  from get_cell_branch_in_bounds [OF buf inside(1,2) x31 inside(3,4) y31 val, of tb env]
  show ?thesis
    by (simp only: handle_get_cell [OF plain_show_int plain_show_int]) auto
qed

lemma handle_print:
  assumes "plain_token tx" "plain_token ty" "plain_token tf" "plain_token tb'"
    and "list_all plain_token words"
  shows "handle_client_command tb env st (command_line (''print'' # tx # ty # tf # tb' # words))
         = print_branch tb env st (take MAX_ARGS (''print'' # tx # ty # tf # tb' # words))"
proof -
  have "collect_args MAX_ARGS (c_str (strip_eol (command_line (''print'' # tx # ty # tf # tb' # words))))
        = take MAX_ARGS (''print'' # tx # ty # tf # tb' # words)"
    using assms by (intro args_of_command_line) (auto simp: plain_verbs list_all_iff)
  then show ?thesis
    unfolding handle_client_command_def by (simp add: MAX_ARGS_def)
qed

lemma handle_print_walk:
  fixes f b :: u16
  assumes words: "words \<noteq> []" "list_all plain_token words"
    and len: "length (command_line (take 5 words)) < SOCKET_BUFFER_SIZE"
    and x: "- (2 ^ 31) \<le> x" and y: "- (2 ^ 31) \<le> y" "y < 2 ^ 31"
    and dec: "decode_text tb (command_line (take 5 words)) = Some cps"
    and room: "x + int (length cps) < 2 ^ 31"
  shows "handle_client_command tb env st
           (command_line (''print'' # show_int x # show_int y # show_nat (unat f) #
                          show_nat (unat b) # words))
         = Some (reply_checked env (print_walk st x y f b cps) ''OK''
                   ''Error writing OK response for print'')"
proof -
  let ?args = "take MAX_ARGS (''print'' # show_int x # show_int y # show_nat (unat f) #
                          show_nat (unat b) # words)"
  have args: "?args = ''print'' # show_int x # show_int y # show_nat (unat f) #
                          show_nat (unat b) # take 5 words"
    by (simp add: MAX_ARGS_def)
  have some: "take 5 words \<noteq> []"
    using words(1) by (cases words) simp_all
  have x31: "x < 2 ^ 31"
    using room by simp
  have ax: "atoi (show_int x) = x" and ay: "atoi (show_int y) = y"
    using x x31 y by (simp_all add: atoi_show_int)
  have joined: "join_text [] True (take 5 words) = Some (command_line (take 5 words))"
    using some len by (rule join_text_words)
  have loop: "print_loop tb st (command_line (take 5 words)) x y f b = Some (print_walk st x y f b cps)"
    using dec room by (rule print_loop_walk)
  have six: "6 \<le> length ?args"
    unfolding args using some by (cases "take 5 words") simp_all
  have "print_branch tb env st ?args =
      Some (reply_checked env (print_walk st x y f b cps) ''OK''
                   ''Error writing OK response for print'')"
    unfolding print_branch_def using six
    by (simp add: args ax ay u16_round_trip joined loop)
  then show ?thesis
    by (simp only: handle_print [OF plain_show_int plain_show_int plain_show_nat plain_show_nat words(2)])
qed

lemma decode_ab: "decode_text utf8_termbox ''ab'' = Some [97, 98]"
  by (simp add: decode_text.simps utf8_termbox_def utf8_decode_def utf8_len_def Let_def)

lemma cell_text_ab: "cell_text utf8_termbox 97 = ''a''" "cell_text utf8_termbox 98 = ''b''"
  by (simp_all add: cell_text_def utf8_termbox_def utf8_encode_def c_str_def char_of_eq_iff)

lemma sized_small_session: "sized 3 2 small_session"
  by (simp add: sized_def small_session_def)

text \<open>
  Claim C3 (print).  Take a \<^verbatim>\<open>print x y fg bg text...\<close> command with at least one text
  token, a text (the first five text tokens, one space between two) shorter than the text
  buffer, and let \<open>cps\<close> be the code points of that text, the column staying below
  \<^verbatim>\<open>INT_MAX\<close>.  The command answers \<^verbatim>\<open>OK\<close>; it calls \<^verbatim>\<open>tb_change_cell\<close> once for each code
  point, in order, at the columns \<open>x, x + 1, ...\<close> of row \<open>y\<close>, whatever the cache is; its
  cache is the one of the specification's walk, which leaves the mirror write out exactly
  at the columns outside the cache: a cell inside the cache holds the code point of its
  column with \<open>fg\<close> and \<open>bg\<close> when it lies on the painted stretch of row \<open>y\<close>, and what
  it held before otherwise; and \<^verbatim>\<open>get_cell\<close> on a painted cell inside the cache answers its
  code point, \<open>fg\<close> and \<open>bg\<close>.
\<close>

theorem print_walks_text:
  fixes f b :: u16
  assumes words: "words \<noteq> []" "list_all plain_token words"
    and len: "length (command_line (take 5 words)) < SOCKET_BUFFER_SIZE"
    and x: "- (2 ^ 31) \<le> x" and y: "- (2 ^ 31) \<le> y" "y < 2 ^ 31"
    and dec: "decode_text tb (command_line (take 5 words)) = Some cps"
    and room: "x + int (length cps) < 2 ^ 31"
  shows "\<exists>st'.
      handle_client_command tb env st
        (command_line (''print'' # show_int x # show_int y # show_nat (unat f) #
                       show_nat (unat b) # words)) = Some (if write_ok env then 0 else 1, st')
    \<and> sock_writes st' = sock_writes st @ [(''OK'', write_ok env)]
    \<and> tb_calls st' =
        tb_calls st @ map (\<lambda>i. Tb_change_cell (x + int i) y (cps ! i) f b) [0..<length cps]
    \<and> shadow_buffer st' = shadow_buffer (print_walk st x y f b cps)
    \<and> shadow_buffer_width st' = shadow_buffer_width st
    \<and> shadow_buffer_height st' = shadow_buffer_height st
    \<and> (\<forall>W H cx cy. sized W H st \<and> 0 \<le> cx \<and> cx < W \<and> 0 \<le> cy \<and> cy < H \<longrightarrow>
          cell_at st' cx cy =
            (if cy = y \<and> x \<le> cx \<and> cx < x + int (length cps)
             then Some \<lparr>ch = cps ! nat (cx - x), fg = f, bg = b\<rparr>
             else cell_at st cx cy))
    \<and> (\<forall>W H i. sized W H st \<and> W < 2 ^ 31 \<and> H < 2 ^ 31 \<and> i < length cps
             \<and> 0 \<le> x + int i \<and> x + int i < W \<and> 0 \<le> y \<and> y < H \<longrightarrow>
          (\<exists>st2. handle_client_command tb env2 st'
                   (command_line [''get_cell'', show_int (x + int i), show_int y]) =
                   Some (if write_ok env2 then 0 else 1, st2)
             \<and> sock_writes st2 = sock_writes st' @
                  [(''OK_CELL '' @ show_int (x + int i) @ '' '' @ show_int y @ '' '' @
                    cell_text tb (cps ! i) @ '' '' @ show_nat (unat f) @ '' '' @ show_nat (unat b),
                    write_ok env2)]))"
proof -
  let ?walk = "print_walk st x y f b cps"
  let ?res = "reply_checked env ?walk ''OK'' ''Error writing OK response for print''"
  let ?st' = "snd ?res"
  have h: "handle_client_command tb env st
        (command_line (''print'' # show_int x # show_int y # show_nat (unat f) #
                       show_nat (unat b) # words)) = Some ?res"
    using words len x y dec room by (rule handle_print_walk)
  have r: "fst ?res = (if write_ok env then 0 else 1)"
    by (simp add: reply_checked_def write_socket_line_def c_str_OK)
  have same: "shadow_buffer ?st' = shadow_buffer ?walk"
      "shadow_buffer_width ?st' = shadow_buffer_width ?walk"
      "shadow_buffer_height ?st' = shadow_buffer_height ?walk"
      "tb_calls ?st' = tb_calls ?walk"
      "sock_writes ?st' = sock_writes ?walk @ [(''OK'', write_ok env)]"
    by (rule reply_checked_OK_fields)+
  have cells: "cell_at ?st' cx cy = cell_at ?walk cx cy" for cx cy
    unfolding cell_at_def same ..
  have sz: "sized W H ?st' = sized W H ?walk" for W H
    unfolding sized_def same ..
  have walk_cell: "cell_at ?st' cx cy =
            (if cy = y \<and> x \<le> cx \<and> cx < x + int (length cps)
             then Some \<lparr>ch = cps ! nat (cx - x), fg = f, bg = b\<rparr>
             else cell_at st cx cy)"
    if "sized W H st" "0 \<le> cx" "cx < W" "0 \<le> cy" "cy < H" for W H cx cy
    unfolding cells using that by (rule print_walk_cell)
  have reads: "\<exists>st2. handle_client_command tb env2 ?st'
                   (command_line [''get_cell'', show_int (x + int i), show_int y]) =
                   Some (if write_ok env2 then 0 else 1, st2)
             \<and> sock_writes st2 = sock_writes ?st' @
                  [(''OK_CELL '' @ show_int (x + int i) @ '' '' @ show_int y @ '' '' @
                    cell_text tb (cps ! i) @ '' '' @ show_nat (unat f) @ '' '' @ show_nat (unat b),
                    write_ok env2)]"
    if "sized W H st" "W < 2 ^ 31" "H < 2 ^ 31" "i < length cps"
      "0 \<le> x + int i" "x + int i < W" "0 \<le> y" "y < H" for W H i
  proof -
    have "sized W H ?st'"
      unfolding sz using that(1) by (rule print_walk_sized)
    moreover have "cell_at ?st' (x + int i) y = Some \<lparr>ch = cps ! i, fg = f, bg = b\<rparr>"
      using walk_cell [OF that(1) that(5,6,7,8)] that(4) by simp
    ultimately show ?thesis
      using that(2,3) by (rule get_cell_reads)
  qed
  show ?thesis
    apply (rule exI [of _ ?st'])
    apply (intro conjI allI impI)
           apply (simp only: h r [symmetric] prod.collapse)
          apply (simp only: same print_walk_frame)
         apply (simp only: same print_walk_calls)
        apply (rule same(1))
       apply (simp only: same print_walk_frame)
      apply (simp only: same print_walk_frame)
     apply (rule walk_cell; blast)
    apply (rule reads; blast)
    done
qed

theorem print_walks_text_witness:
  "\<exists>st' st2 st3.
      handle_client_command utf8_termbox quiet_env small_session ''print 0 0 1 2 ab'' = Some (0, st')
    \<and> tb_calls st' = [Tb_change_cell 0 0 97 1 2, Tb_change_cell 1 0 98 1 2]
    \<and> sock_writes st' = [(''OK'', True)]
    \<and> handle_client_command utf8_termbox quiet_env st' ''get_cell 0 0'' = Some (0, st2)
    \<and> sock_writes st2 = [(''OK'', True), (''OK_CELL 0 0 a 1 2'', True)]
    \<and> handle_client_command utf8_termbox quiet_env st' ''get_cell 1 0'' = Some (0, st3)
    \<and> sock_writes st3 = [(''OK'', True), (''OK_CELL 1 0 b 1 2'', True)]"
proof -
  have words: "[''ab''] \<noteq> []" "list_all plain_token [''ab'']"
    by (simp_all add: plain_token_def)
  have len: "length (command_line (take 5 [''ab''])) < SOCKET_BUFFER_SIZE"
    by (simp add: SOCKET_BUFFER_SIZE_def)
  have zero: "- (2 ^ 31) \<le> (0::int)" "(0::int) < 2 ^ 31"
    by simp_all
  have dec: "decode_text utf8_termbox (command_line (take 5 [''ab''])) = Some [97, 98]"
    by (simp add: decode_ab)
  have room: "0 + int (length [97, 98 :: u32]) < 2 ^ 31"
    by simp
  have wq: "write_ok quiet_env"
    by (simp add: quiet_env_def)
  have line: "command_line (''print'' # show_int 0 # show_int 0 # show_nat (unat (1::u16)) #
                       show_nat (unat (2::u16)) # [''ab'']) = ''print 0 0 1 2 ab''"
    by (simp add: show_int_small show_nat_examples)
  from print_walks_text [OF words len zero(1) zero dec room, of quiet_env small_session 1 2 quiet_env]
  obtain st' where
    p: "handle_client_command utf8_termbox quiet_env small_session ''print 0 0 1 2 ab'' = Some (0, st')"
    and w: "sock_writes st' = [(''OK'', True)]"
    and c: "tb_calls st' = [Tb_change_cell 0 0 97 1 2, Tb_change_cell 1 0 98 1 2]"
    and g: "\<forall>W H i. sized W H small_session \<and> W < 2 ^ 31 \<and> H < 2 ^ 31 \<and> i < length [97, 98 :: u32]
             \<and> 0 \<le> 0 + int i \<and> 0 + int i < W \<and> (0::int) \<le> 0 \<and> 0 < H \<longrightarrow>
          (\<exists>st2. handle_client_command utf8_termbox quiet_env st'
                   (command_line [''get_cell'', show_int (0 + int i), show_int 0]) =
                   Some (if write_ok quiet_env then 0 else 1, st2)
             \<and> sock_writes st2 = sock_writes st' @
                  [(''OK_CELL '' @ show_int (0 + int i) @ '' '' @ show_int 0 @ '' '' @
                    cell_text utf8_termbox ([97, 98] ! i) @ '' '' @ show_nat (unat (1::u16)) @ '' '' @
                    show_nat (unat (2::u16)), write_ok quiet_env)])"
    unfolding line
    by (auto simp: wq small_session_def initial_session_def numeral_2_eq_2)
  from g [rule_format, of 3 2 0] obtain st2 where
    "handle_client_command utf8_termbox quiet_env st' ''get_cell 0 0'' = Some (0, st2)"
    "sock_writes st2 = [(''OK'', True), (''OK_CELL 0 0 a 1 2'', True)]"
    by (auto simp: sized_small_session w wq show_int_small show_nat_examples cell_text_ab)
  moreover
  from g [rule_format, of 3 2 1] obtain st3 where
    "handle_client_command utf8_termbox quiet_env st' ''get_cell 1 0'' = Some (0, st3)"
    "sock_writes st3 = [(''OK'', True), (''OK_CELL 1 0 b 1 2'', True)]"
    by (auto simp: sized_small_session w wq show_int_small show_nat_examples cell_text_ab)
  ultimately show ?thesis
    using p w c by blast
qed

text \<open>
  In the session in which the port starts serving, the cache is empty (it is sized by
  resize events only): \<^verbatim>\<open>print 0 0 1 2 ab\<close> is answered \<^verbatim>\<open>OK\<close>, and the \<^verbatim>\<open>get_cell 0 0\<close>
  that follows is answered with the error, not with \<^verbatim>\<open>a\<close>.
\<close>

theorem print_fresh_session_counterexample:
  "map_option (sock_writes \<circ> fst)
     (dispatch_lines utf8_termbox (cmd_envs idle_iter) 0 (sess (serving (good_boot [])))
        [''print 0 0 1 2 ab'', ''get_cell 0 0''])
     = Some [(''OK'', True), (''ERROR invalid_coords_get_cell'', True)]"
proof -
  let ?st = "sess (serving (good_boot []))"
  let ?walk = "print_walk ?st 0 0 1 2 [97, 98]"
  let ?st' = "?walk\<lparr>sock_writes := [(''OK'', True)]\<rparr>"
  have words: "[''ab''] \<noteq> []" "list_all plain_token [''ab'']"
    by (simp_all add: plain_token_def)
  have len: "length (command_line (take 5 [''ab''])) < SOCKET_BUFFER_SIZE"
    by (simp add: SOCKET_BUFFER_SIZE_def)
  have zero: "- (2 ^ 31) \<le> (0::int)" "(0::int) < 2 ^ 31"
    by simp_all
  have dec: "decode_text utf8_termbox (command_line (take 5 [''ab''])) = Some [97, 98]"
    by (simp add: decode_ab)
  have room: "0 + int (length [97, 98 :: u32]) < 2 ^ 31"
    by simp
  have line: "command_line (''print'' # show_int 0 # show_int 0 # show_nat (unat (1::u16)) #
                       show_nat (unat (2::u16)) # [''ab'']) = ''print 0 0 1 2 ab''"
    by (simp add: show_int_small show_nat_examples)
  have none: "shadow_buffer ?walk = None"
    by (rule print_walk_no_cache) (simp add: serving_def initial_session_def)
  have p: "handle_client_command utf8_termbox quiet_env ?st ''print 0 0 1 2 ab'' = Some (0, ?st')"
    using handle_print_walk [OF words len zero(1) zero dec room, of quiet_env ?st 1 2]
    unfolding line
    by (simp add: reply_checked_def write_socket_line_def c_str_OK quiet_env_def
        print_walk_frame serving_fresh del: print_walk.simps)
  have "handle_client_command utf8_termbox quiet_env ?st'
          (command_line [''get_cell'', show_int 0, show_int 0]) =
     Some (0, ?st'\<lparr>sock_writes := sock_writes ?st' @
                     [(''ERROR invalid_coords_get_cell'', write_ok quiet_env)]\<rparr>)"
    using zero zero by (rule get_cell_branch_outside) (simp add: none del: print_walk.simps)
  then have g: "handle_client_command utf8_termbox quiet_env ?st' ''get_cell 0 0'' =
     Some (0, ?st'\<lparr>sock_writes := [(''OK'', True), (''ERROR invalid_coords_get_cell'', True)]\<rparr>)"
    by (simp add: show_int_small quiet_env_def del: print_walk.simps)
  show ?thesis
    by (simp add: idle_iter_def p g del: print_walk.simps)
qed

subsection \<open>Tokens\<close>

lemma split_sp_shape:
  "split_sp cs = takeWhile (\<lambda>c. c \<noteq> CHR '' '') cs
       # tl (split_sp (dropWhile (\<lambda>c. c \<noteq> CHR '' '') cs))"
  by (induction cs) auto

lemma space_tokens_skip:
  "space_tokens (dropWhile (\<lambda>c. c = CHR '' '') s) = space_tokens s"
  by (induction s) (auto simp: space_tokens_def)

lemma space_tokens_Nil: "space_tokens [] = []"
  by (simp add: space_tokens_def)

lemma space_tokens_first:
  assumes "s \<noteq> []" "hd s \<noteq> CHR '' ''"
  shows "space_tokens s =
     takeWhile (\<lambda>c. c \<noteq> CHR '' '') s
       # space_tokens (drop 1 (dropWhile (\<lambda>c. c \<noteq> CHR '' '') s))"
proof -
  let ?d = "dropWhile (\<lambda>c. c \<noteq> CHR '' '') s"
  have first: "takeWhile (\<lambda>c. c \<noteq> CHR '' '') s \<noteq> []"
    using assms by (cases s) auto
  have rest: "filter (\<lambda>w. w \<noteq> []) (tl (split_sp ?d)) = space_tokens (drop 1 ?d)"
  proof (cases ?d)
    case Nil
    show ?thesis
      unfolding Nil by (simp add: space_tokens_def)
  next
    case (Cons c r)
    then have "c = CHR '' ''"
      using hd_dropWhile [of "\<lambda>c. c \<noteq> CHR '' ''" s] by auto
    then show ?thesis
      unfolding Cons by (simp add: space_tokens_def)
  qed
  show ?thesis
    unfolding space_tokens_def [of s]
    by (subst split_sp_shape) (simp add: first rest)
qed

lemma strtok_sp_none:
  assumes "dropWhile (\<lambda>c. c = CHR '' '') s = []"
  shows "strtok_sp s = None" and "space_tokens s = []"
proof -
  show "strtok_sp s = None"
    unfolding strtok_sp_def Let_def assms by simp
  have "space_tokens s = space_tokens (dropWhile (\<lambda>c. c = CHR '' '') s)"
    by (simp add: space_tokens_skip)
  then show "space_tokens s = []"
    unfolding assms by (simp add: space_tokens_Nil)
qed

lemma strtok_sp_some:
  assumes "dropWhile (\<lambda>c. c = CHR '' '') s \<noteq> []"
  shows "strtok_sp s =
      Some (takeWhile (\<lambda>c. c \<noteq> CHR '' '') (dropWhile (\<lambda>c. c = CHR '' '') s),
            drop 1 (dropWhile (\<lambda>c. c \<noteq> CHR '' '') (dropWhile (\<lambda>c. c = CHR '' '') s)))"
    and "space_tokens s =
      takeWhile (\<lambda>c. c \<noteq> CHR '' '') (dropWhile (\<lambda>c. c = CHR '' '') s)
        # space_tokens (drop 1 (dropWhile (\<lambda>c. c \<noteq> CHR '' '')
                                 (dropWhile (\<lambda>c. c = CHR '' '') s)))"
proof -
  let ?s1 = "dropWhile (\<lambda>c. c = CHR '' '') s"
  show "strtok_sp s =
      Some (takeWhile (\<lambda>c. c \<noteq> CHR '' '') ?s1, drop 1 (dropWhile (\<lambda>c. c \<noteq> CHR '' '') ?s1))"
    unfolding strtok_sp_def Let_def by (simp only: assms if_False)
  have "hd ?s1 \<noteq> CHR '' ''"
    using assms hd_dropWhile [of "\<lambda>c. c = CHR '' ''" s] by blast
  from space_tokens_first [OF assms this]
  show "space_tokens s =
      takeWhile (\<lambda>c. c \<noteq> CHR '' '') ?s1
        # space_tokens (drop 1 (dropWhile (\<lambda>c. c \<noteq> CHR '' '') ?s1))"
    by (simp only: space_tokens_skip)
qed

lemma collect_args_tokens: "collect_args n s = take n (space_tokens s)"
proof (induction n arbitrary: s)
  case 0
  show ?case by simp
next
  case (Suc n)
  show ?case
  proof (cases "dropWhile (\<lambda>c. c = CHR '' '') s = []")
    case True
    show ?thesis
      by (simp only: collect_args.simps strtok_sp_none [OF True] option.case take.simps)
  next
    case False
    show ?thesis
      by (simp only: collect_args.simps strtok_sp_some [OF False] option.case prod.case
          Suc.IH take_Suc_Cons)
  qed
qed

lemma handle_by_args:
  assumes "collect_args MAX_ARGS (c_str (strip_eol l)) = collect_args MAX_ARGS (c_str (strip_eol l'))"
  shows "handle_client_command tb env st l = handle_client_command tb env st l'"
  unfolding handle_client_command_def assms ..

lemma handle_print_args:
  assumes "collect_args MAX_ARGS (c_str (strip_eol l)) = ''print'' # rest"
  shows "handle_client_command tb env st l = print_branch tb env st (''print'' # rest)"
  unfolding handle_client_command_def assms by simp

lemma decode_five: "decode_text utf8_termbox ''a b c d e'' = Some [97, 32, 98, 32, 99, 32, 100, 32, 101]"
  by (simp add: decode_text.simps utf8_termbox_def utf8_decode_def utf8_len_def Let_def)

text \<open>
  Claim C10 (at most ten tokens).  The arguments of a command are the first ten tokens of
  the line, a token being a piece between spaces that is not empty; two lines with the
  same first ten tokens are handled alike, so what follows the tenth token changes
  neither the response nor the state.  For a line of plain tokens with one space between
  two of them, the arguments are the first ten of these, and the line is handled as the
  line of its first ten tokens.  A \<^verbatim>\<open>print\<close> line is handled by its branch with the first
  five text tokens only: the branch answers \<^verbatim>\<open>OK\<close>, paints the code points of the first
  five text tokens, joined again by one space, and mirrors them as the walk does.
\<close>

theorem tokens_beyond_tenth_discarded:
  fixes f b :: u16
  shows "collect_args MAX_ARGS (c_str (strip_eol l)) = take 10 (space_tokens (c_str (strip_eol l)))
    \<and> (take 10 (space_tokens (c_str (strip_eol l))) = take 10 (space_tokens (c_str (strip_eol l')))
         \<longrightarrow> handle_client_command tb env st l = handle_client_command tb env st l')
    \<and> (list_all plain_token ts \<longrightarrow>
           collect_args MAX_ARGS (c_str (strip_eol (command_line ts))) = take 10 ts
         \<and> handle_client_command tb env st (command_line ts) =
             handle_client_command tb env st (command_line (take 10 ts)))
    \<and> (space_tokens (c_str (strip_eol l)) = ''print'' # tx # ty # tf # tb' # words \<longrightarrow>
           handle_client_command tb env st l =
             print_branch tb env st (''print'' # tx # ty # tf # tb' # take 5 words))
    \<and> (words \<noteq> [] \<and> list_all plain_token words
         \<and> length (command_line (take 5 words)) < SOCKET_BUFFER_SIZE
         \<and> - (2 ^ 31) \<le> x \<and> - (2 ^ 31) \<le> y \<and> y < 2 ^ 31
         \<and> decode_text tb (command_line (take 5 words)) = Some cps
         \<and> x + int (length cps) < 2 ^ 31 \<longrightarrow>
        (\<exists>st'. handle_client_command tb env st
                 (command_line (''print'' # show_int x # show_int y # show_nat (unat f) #
                                show_nat (unat b) # words)) = Some (if write_ok env then 0 else 1, st')
           \<and> tb_calls st' =
               tb_calls st @ map (\<lambda>i. Tb_change_cell (x + int i) y (cps ! i) f b) [0..<length cps]
           \<and> shadow_buffer st' = shadow_buffer (print_walk st x y f b cps)
           \<and> sock_writes st' = sock_writes st @ [(''OK'', write_ok env)]))"
proof (intro conjI impI)
  show args: "collect_args MAX_ARGS (c_str (strip_eol l)) = take 10 (space_tokens (c_str (strip_eol l)))"
    for l
    by (simp add: collect_args_tokens MAX_ARGS_def)
  show "handle_client_command tb env st l = handle_client_command tb env st l'"
    if "take 10 (space_tokens (c_str (strip_eol l))) = take 10 (space_tokens (c_str (strip_eol l')))"
    using that by (intro handle_by_args) (simp only: args)
  show "handle_client_command tb env st l =
             print_branch tb env st (''print'' # tx # ty # tf # tb' # take 5 words)"
    if "space_tokens (c_str (strip_eol l)) = ''print'' # tx # ty # tf # tb' # words"
    by (rule handle_print_args) (simp add: args that)
next
  assume plain: "list_all plain_token ts"
  then have all: "\<forall>t \<in> set ts. plain_token t"
    by (simp add: list_all_iff)
  then have cut: "\<forall>t \<in> set (take 10 ts). plain_token t"
    by (auto dest: in_set_takeD)
  show whole: "collect_args MAX_ARGS (c_str (strip_eol (command_line ts))) = take 10 ts"
    using args_of_command_line [OF all] by (simp add: MAX_ARGS_def)
  have "collect_args MAX_ARGS (c_str (strip_eol (command_line (take 10 ts)))) = take 10 ts"
    using args_of_command_line [OF cut] by (simp add: MAX_ARGS_def)
  with whole show "handle_client_command tb env st (command_line ts) =
             handle_client_command tb env st (command_line (take 10 ts))"
    by (intro handle_by_args) simp
next
  assume a: "words \<noteq> [] \<and> list_all plain_token words
         \<and> length (command_line (take 5 words)) < SOCKET_BUFFER_SIZE
         \<and> - (2 ^ 31) \<le> x \<and> - (2 ^ 31) \<le> y \<and> y < 2 ^ 31
         \<and> decode_text tb (command_line (take 5 words)) = Some cps
         \<and> x + int (length cps) < 2 ^ 31"
  let ?walk = "print_walk st x y f b cps"
  let ?res = "reply_checked env ?walk ''OK'' ''Error writing OK response for print''"
  have h: "handle_client_command tb env st
        (command_line (''print'' # show_int x # show_int y # show_nat (unat f) #
                       show_nat (unat b) # words)) = Some ?res"
    using a by (intro handle_print_walk) simp_all
  have r: "fst ?res = (if write_ok env then 0 else 1)"
    by (simp add: reply_checked_def write_socket_line_def c_str_OK)
  have same: "shadow_buffer (snd ?res) = shadow_buffer ?walk"
      "tb_calls (snd ?res) = tb_calls ?walk"
      "sock_writes (snd ?res) = sock_writes ?walk @ [(''OK'', write_ok env)]"
    by (rule reply_checked_OK_fields)+
  show "\<exists>st'. handle_client_command tb env st
                 (command_line (''print'' # show_int x # show_int y # show_nat (unat f) #
                                show_nat (unat b) # words)) = Some (if write_ok env then 0 else 1, st')
           \<and> tb_calls st' =
               tb_calls st @ map (\<lambda>i. Tb_change_cell (x + int i) y (cps ! i) f b) [0..<length cps]
           \<and> shadow_buffer st' = shadow_buffer (print_walk st x y f b cps)
           \<and> sock_writes st' = sock_writes st @ [(''OK'', write_ok env)]"
    apply (rule exI [of _ "snd ?res"])
    apply (intro conjI)
       apply (simp only: h r [symmetric] prod.collapse)
      apply (simp only: same print_walk_calls)
     apply (rule same(1))
    apply (simp only: same print_walk_frame)
    done
qed

theorem tokens_beyond_tenth_discarded_witness:
  "collect_args MAX_ARGS (c_str (strip_eol ''print 0 0 1 2 a b c d e f g''))
     = [''print'', ''0'', ''0'', ''1'', ''2'', ''a'', ''b'', ''c'', ''d'', ''e'']
   \<and> handle_client_command utf8_termbox quiet_env small_session ''print 0 0 1 2 a b c d e f g''
     = handle_client_command utf8_termbox quiet_env small_session ''print 0 0 1 2 a b c d e''
   \<and> (\<exists>st'. handle_client_command utf8_termbox quiet_env small_session ''print 0 0 1 2 a b c d e f g''
           = Some (0, st')
         \<and> tb_calls st' =
             [Tb_change_cell 0 0 97 1 2, Tb_change_cell 1 0 32 1 2, Tb_change_cell 2 0 98 1 2,
              Tb_change_cell 3 0 32 1 2, Tb_change_cell 4 0 99 1 2, Tb_change_cell 5 0 32 1 2,
              Tb_change_cell 6 0 100 1 2, Tb_change_cell 7 0 32 1 2, Tb_change_cell 8 0 101 1 2]
         \<and> sock_writes st' = [(''OK'', True)])"
proof -
  let ?words = "[''a'', ''b'', ''c'', ''d'', ''e'', ''f'', ''g'']"
  let ?ts = "''print'' # show_int 0 # show_int 0 # show_nat (unat (1::u16)) #
             show_nat (unat (2::u16)) # ?words"
  have plain: "list_all plain_token ?ts"
    by (simp add: plain_token_def show_int_small show_nat_examples)
  have line: "command_line ?ts = ''print 0 0 1 2 a b c d e f g''"
    by (simp add: show_int_small show_nat_examples)
  have cut: "command_line (take 10 ?ts) = ''print 0 0 1 2 a b c d e''"
    by (simp add: show_int_small show_nat_examples)
  have toks: "take 10 ?ts = [''print'', ''0'', ''0'', ''1'', ''2'', ''a'', ''b'', ''c'', ''d'', ''e'']"
    by (simp add: show_int_small show_nat_examples)
  have pre: "?words \<noteq> [] \<and> list_all plain_token ?words
         \<and> length (command_line (take 5 ?words)) < SOCKET_BUFFER_SIZE
         \<and> - (2 ^ 31) \<le> (0::int) \<and> - (2 ^ 31) \<le> (0::int) \<and> (0::int) < 2 ^ 31
         \<and> decode_text utf8_termbox (command_line (take 5 ?words)) = Some [97, 32, 98, 32, 99, 32, 100, 32, 101]
         \<and> 0 + int (length [97, 32, 98, 32, 99, 32, 100, 32, 101 :: u32]) < 2 ^ 31"
    by (simp add: plain_token_def SOCKET_BUFFER_SIZE_def decode_five)
  note claim = tokens_beyond_tenth_discarded
    [of "''print 0 0 1 2 a b c d e f g''" _ utf8_termbox quiet_env small_session ?ts _ _ _ _
        ?words 0 0 "[97, 32, 98, 32, 99, 32, 100, 32, 101]" 1 2]
  from claim plain have
    "collect_args MAX_ARGS (c_str (strip_eol (command_line ?ts))) = take 10 ?ts"
    "handle_client_command utf8_termbox quiet_env small_session (command_line ?ts) =
       handle_client_command utf8_termbox quiet_env small_session (command_line (take 10 ?ts))"
    by blast+
  then have 1: "collect_args MAX_ARGS (c_str (strip_eol ''print 0 0 1 2 a b c d e f g''))
     = [''print'', ''0'', ''0'', ''1'', ''2'', ''a'', ''b'', ''c'', ''d'', ''e'']"
    and 2: "handle_client_command utf8_termbox quiet_env small_session ''print 0 0 1 2 a b c d e f g''
     = handle_client_command utf8_termbox quiet_env small_session ''print 0 0 1 2 a b c d e''"
    unfolding line cut toks by simp_all
  from claim pre have "\<exists>st'. handle_client_command utf8_termbox quiet_env small_session
                 (command_line ?ts) = Some (if write_ok quiet_env then 0 else 1, st')
           \<and> tb_calls st' =
               tb_calls small_session @
                 map (\<lambda>i. Tb_change_cell (0 + int i) 0 ([97, 32, 98, 32, 99, 32, 100, 32, 101] ! i) 1 2)
                   [0..<length [97, 32, 98, 32, 99, 32, 100, 32, 101 :: u32]]
           \<and> shadow_buffer st' =
               shadow_buffer (print_walk small_session 0 0 1 2 [97, 32, 98, 32, 99, 32, 100, 32, 101])
           \<and> sock_writes st' = sock_writes small_session @ [(''OK'', write_ok quiet_env)]"
    by blast
  then obtain st' where
    "handle_client_command utf8_termbox quiet_env small_session ''print 0 0 1 2 a b c d e f g''
           = Some (0, st')"
    "tb_calls st' =
             [Tb_change_cell 0 0 97 1 2, Tb_change_cell 1 0 32 1 2, Tb_change_cell 2 0 98 1 2,
              Tb_change_cell 3 0 32 1 2, Tb_change_cell 4 0 99 1 2, Tb_change_cell 5 0 32 1 2,
              Tb_change_cell 6 0 100 1 2, Tb_change_cell 7 0 32 1 2, Tb_change_cell 8 0 101 1 2]"
    "sock_writes st' = [(''OK'', True)]"
    unfolding line
    by (auto simp: quiet_env_def small_session_def initial_session_def upt_0_Suc_map
        simp del: upt_Suc print_walk.simps)
  with 1 2 show ?thesis
    by blast
qed

text \<open>
  A tab is white space and does not separate tokens: \<^verbatim>\<open>get_cell\<close>, \<^verbatim>\<open>0\<close> and \<^verbatim>\<open>0\<close> with tabs
  between them are one token, and the line is answered as an unknown command.
\<close>

theorem tab_is_no_separator_counterexample:
  "collect_args MAX_ARGS (c_str (strip_eol (''get_cell'' @ [CHR 0x09] @ ''0'' @ [CHR 0x09] @ ''0'')))
     = [''get_cell'' @ [CHR 0x09] @ ''0'' @ [CHR 0x09] @ ''0'']
   \<and> handle_client_command utf8_termbox quiet_env small_session
       (''get_cell'' @ [CHR 0x09] @ ''0'' @ [CHR 0x09] @ ''0'')
     = Some (0, small_session\<lparr>sock_writes := [(''ERROR unknown_command'', True)]\<rparr>)"
proof -
  have args: "collect_args MAX_ARGS (c_str (strip_eol (''get_cell'' @ [CHR 0x09] @ ''0'' @ [CHR 0x09] @ ''0'')))
     = [''get_cell'' @ [CHR 0x09] @ ''0'' @ [CHR 0x09] @ ''0'']"
    by (simp add: collect_args_tokens space_tokens_def MAX_ARGS_def c_str_def strip_eol_def)
  show ?thesis
    unfolding handle_client_command_def args
    by (simp add: reply_unchecked_def write_socket_line_def c_str_def quiet_env_def
        small_session_def initial_session_def)
qed

end
